theory Spec2Isabelle
  imports Main "HOL-Library.Sublist" "HOL-Library.AList"
begin

section \<open>Strings, exceptions and log records\<close>

text \<open>
  Strings are byte strings (\<open>char list\<close>), as Python 2's \<open>str\<close>: the character
  classes of the regular expressions below are their ASCII ranges. An exception of the
  Python code is a value of \<open>exn\<close>; a function that can raise returns \<open>exn + 'a\<close>
  with \<open>Inl\<close> for the raise. A call of the module's \<open>logger\<close> is a record of the
  level, the format string and its arguments; \<open>logger.exception\<close> logs at level ERROR.
\<close>

datatype exn =
    ValueError string
  | KeyError string
  | NameError string
  | HTTPError nat
  | URLError string
  | OtherException string

text \<open>A \<open>Page\<close> object: the decoded text, the base URL (from a \<open>base\<close> tag of the
  text when there is one, else the URL) and the URL it was fetched from.\<close>

record page =
  page_data :: string
  page_base_url :: string
  page_url :: string

datatype log_level = DEBUG | ERROR

datatype log_arg = Str string | PageArg "page option" | ExnArg exn

type_synonym log_record = "log_level \<times> string \<times> log_arg list"

definition newline :: char where
  "newline = CHR 0x0A"

definition ascii_uppercase :: string where
  "ascii_uppercase = ''ABCDEFGHIJKLMNOPQRSTUVWXYZ''"

definition ascii_lowercase :: string where
  "ascii_lowercase = ''abcdefghijklmnopqrstuvwxyz''"

definition digits :: string where
  "digits = ''0123456789''"

definition lower_char :: "char \<Rightarrow> char" where
  "lower_char c = (case map_of (zip ascii_uppercase ascii_lowercase) c of
                     None \<Rightarrow> c | Some l \<Rightarrow> l)"

text \<open>\<open>str.lower()\<close>\<close>

definition lower :: "string \<Rightarrow> string" where
  "lower s = map lower_char s"

text \<open>\<open>s.startswith(p)\<close>, \<open>s.endswith(e)\<close> and \<open>s.endswith(tuple)\<close>\<close>

definition startswith :: "string \<Rightarrow> string \<Rightarrow> bool" where
  "startswith s p = prefix p s"

definition endswith :: "string \<Rightarrow> string \<Rightarrow> bool" where
  "endswith s e = suffix e s"

definition endswith_any :: "string \<Rightarrow> string list \<Rightarrow> bool" where
  "endswith_any s es = list_ex (endswith s) es"

text \<open>\<open>s.split(c, 1)\<close> as a pair: the text before the first \<open>c\<close> and the text after
  it (empty when \<open>c\<close> does not occur).\<close>

definition split_first :: "char \<Rightarrow> string \<Rightarrow> string \<times> string" where
  "split_first c s = (takeWhile (\<lambda>x. x \<noteq> c) s, drop 1 (dropWhile (\<lambda>x. x \<noteq> c) s))"

text \<open>\<open>posixpath.basename\<close>: the text after the last slash.\<close>

definition basename :: "string \<Rightarrow> string" where
  "basename p = rev (takeWhile (\<lambda>c. c \<noteq> CHR ''/'') (rev p))"

text \<open>The first result of a list of attempts, as a backtracking search returns it.\<close>

fun first_some :: "('a \<Rightarrow> 'b option) \<Rightarrow> 'a list \<Rightarrow> 'b option" where
  "first_some f [] = None"
| "first_some f (x # xs) = (case f x of Some y \<Rightarrow> Some y | None \<Rightarrow> first_some f xs)"

section \<open>URL parsing (the standard library's \<open>urlparse\<close> and \<open>urlunparse\<close>)\<close>

text \<open>
  \<open>urlparse\<close> and \<open>urlunparse\<close> reach the module through \<open>compat\<close> from the standard
  library. They are modelled after the library's algorithm: scheme up to the first
  colon, network location after \<open>//\<close> up to the first of \<open>/?#\<close>, fragment after the
  first \<open>#\<close>, query after the first \<open>?\<close>, parameters after the first \<open>;\<close> of the last
  path segment. The library raises \<open>ValueError\<close> when a bracket of the network location
  has no partner; that raise is the \<open>Inl\<close> branch. The removal of control characters
  that recent library versions do first is not part of the model.
\<close>

record parsed_url =
  scheme :: string
  netloc :: string
  path :: string
  params :: string
  query :: string
  fragment :: string

definition scheme_chars :: string where
  "scheme_chars = ascii_lowercase @ ascii_uppercase @ digits @ ''+-.''"

definition uses_netloc :: "string list" where
  "uses_netloc = ['''', ''ftp'', ''http'', ''gopher'', ''nntp'', ''telnet'', ''imap'', ''wais'',
     ''file'', ''mms'', ''https'', ''shttp'', ''snews'', ''prospero'', ''rtsp'', ''rtsps'',
     ''rtspu'', ''rsync'', ''svn'', ''svn+ssh'', ''sftp'', ''nfs'', ''git'', ''git+ssh'',
     ''ws'', ''wss'']"

definition uses_params :: "string list" where
  "uses_params = ['''', ''ftp'', ''hdl'', ''prospero'', ''http'', ''imap'', ''https'', ''shttp'',
     ''rtsp'', ''rtsps'', ''rtspu'', ''sip'', ''sips'', ''mms'', ''sftp'', ''tel'']"

definition urlsplit_scheme :: "string \<Rightarrow> string \<times> string" where
  "urlsplit_scheme url =
     (let s = takeWhile (\<lambda>c. c \<noteq> CHR '':'') url in
      if s \<noteq> [] \<and> length s < length url
         \<and> list_ex (\<lambda>c. c = hd s) (ascii_lowercase @ ascii_uppercase)
         \<and> list_all (\<lambda>c. c \<in> set scheme_chars) s
      then (lower s, drop (Suc (length s)) url)
      else ([], url))"

definition splitnetloc :: "string \<Rightarrow> string \<times> string" where
  "splitnetloc url =
     (let r = drop 2 url; n = takeWhile (\<lambda>c. c \<notin> set ''/?#'') r
      in (n, drop (length n) r))"

definition splitparams :: "string \<Rightarrow> string \<times> string" where
  "splitparams url =
     (let seg = basename url; dir = take (length url - length seg) url in
      if CHR '';'' \<in> set seg
      then (dir @ takeWhile (\<lambda>c. c \<noteq> CHR '';'') seg,
            drop 1 (dropWhile (\<lambda>c. c \<noteq> CHR '';'') seg))
      else (url, []))"

definition invalid_brackets :: "string \<Rightarrow> bool" where
  "invalid_brackets n =
     ((CHR ''['' \<in> set n \<and> CHR '']'' \<notin> set n) \<or> (CHR '']'' \<in> set n \<and> CHR ''['' \<notin> set n))"

definition urlparse :: "string \<Rightarrow> exn + parsed_url" where
  "urlparse url0 =
     (let (sch, url1) = urlsplit_scheme url0;
          (net, url2) = (if take 2 url1 = ''//'' then splitnetloc url1 else ([], url1))
      in if invalid_brackets net then Inl (ValueError ''Invalid IPv6 URL'')
         else
           let (url3, frag) = split_first (CHR ''#'') url2;
               (url4, qry) = split_first (CHR ''?'') url3;
               (pth, prm) = (if sch \<in> set uses_params \<and> CHR '';'' \<in> set url4
                             then splitparams url4 else (url4, []))
           in Inr \<lparr>scheme = sch, netloc = net, path = pth, params = prm,
                    query = qry, fragment = frag\<rparr>)"

definition urlunparse :: "parsed_url \<Rightarrow> string" where
  "urlunparse p =
     (let url1 = (if params p \<noteq> [] then path p @ '';'' @ params p else path p);
          url2 = (if netloc p \<noteq> [] \<or> (scheme p \<noteq> [] \<and> scheme p \<in> set uses_netloc)
                     \<or> take 2 url1 = ''//''
                  then ''//'' @ netloc p
                       @ (if url1 \<noteq> [] \<and> take 1 url1 \<noteq> ''/'' then ''/'' @ url1 else url1)
                  else url1);
          url3 = (if scheme p \<noteq> [] then scheme p @ '':'' @ url2 else url2);
          url4 = (if query p \<noteq> [] then url3 @ ''?'' @ query p else url3)
      in if fragment p \<noteq> [] then url4 @ ''#'' @ fragment p else url4)"

section \<open>The module's constants\<close>

text \<open>\<open>EXTENSIONS = tuple(".tar.gz .tar.bz2 .tar .zip .tgz .egg".split())\<close>\<close>

definition EXTENSIONS :: "string list" where
  "EXTENSIONS = [''.tar.gz'', ''.tar.bz2'', ''.tar'', ''.zip'', ''.tgz'', ''.egg'']"

text \<open>
  The regular expressions are written as the matchers Python's backtracking engine
  computes for them. \<open>$\<close> (without MULTILINE) holds at the end of the string and just
  before a newline that ends the string.
\<close>

definition at_end :: "string \<Rightarrow> bool" where
  "at_end s = (s = [] \<or> s = [newline])"

definition is_digit :: "char \<Rightarrow> bool" where
  "is_digit c = (c \<in> set digits)"

text \<open>A greedy optional item \<open>x?\<close>: the character when it fits, then the empty match.\<close>

definition opt :: "(char \<Rightarrow> bool) \<Rightarrow> string \<Rightarrow> string list" where
  "opt P s = (case s of c # _ \<Rightarrow> (if P c then [[c], []] else [[]]) | [] \<Rightarrow> [[]])"

text \<open>\<open>re.search\<close>: the leftmost position at which the pattern matches, with what the
  matcher returns there.\<close>

fun re_search :: "(string \<Rightarrow> 'a option) \<Rightarrow> nat \<Rightarrow> string \<Rightarrow> (nat \<times> 'a) option" where
  "re_search m i [] = (case m [] of Some g \<Rightarrow> Some (i, g) | None \<Rightarrow> None)"
| "re_search m i (c # s) =
     (case m (c # s) of Some g \<Rightarrow> Some (i, g) | None \<Rightarrow> re_search m (Suc i) s)"

text \<open>\<open>MD5_HASH = re.compile('^md5=([a-f0-9]+)$')\<close>, used with \<open>match\<close>: group 1.\<close>

definition is_md5_char :: "char \<Rightarrow> bool" where
  "is_md5_char c = (c \<in> set ''abcdef0123456789'')"

definition MD5_HASH_match :: "string \<Rightarrow> string option" where
  "MD5_HASH_match s =
     (if prefix ''md5='' s
      then (let t = drop 4 s; h = takeWhile is_md5_char t in
            first_some (\<lambda>k. if at_end (drop k t) then Some (take k h) else None)
              (rev [1..<Suc (length h)]))
      else None)"

text \<open>\<open>HTML_CONTENT_TYPE = re.compile('text/html|application/xhtml')\<close>, used with
  \<open>match\<close> (anchored at the start only).\<close>

definition HTML_CONTENT_TYPE_match :: "string \<Rightarrow> bool" where
  "HTML_CONTENT_TYPE_match s = (prefix ''text/html'' s \<or> prefix ''application/xhtml'' s)"

text \<open>\<open>PROJECT_NAME_AND_VERSION = re.compile('([a-z0-9_.-]+)-([0-9][0-9_.-]*)', re.I)\<close>,
  used with \<open>match\<close>: groups 1 and 2. The name group is greedy: it takes the whole run
  of name characters and gives characters back until a dash and a digit follow.\<close>

definition is_name_char :: "char \<Rightarrow> bool" where
  "is_name_char c = (c \<in> set (ascii_lowercase @ ascii_uppercase @ digits @ ''_.-''))"

definition is_version_char :: "char \<Rightarrow> bool" where
  "is_version_char c = (c \<in> set (digits @ ''_.-''))"

fun dash_version :: "string \<Rightarrow> string option" where
  "dash_version (c # d # r) =
     (if c = CHR ''-'' \<and> is_digit d then Some (d # takeWhile is_version_char r) else None)"
| "dash_version _ = None"

definition PROJECT_NAME_AND_VERSION_match :: "string \<Rightarrow> (string \<times> string) option" where
  "PROJECT_NAME_AND_VERSION_match s =
     first_some (\<lambda>k. map_option (Pair (take k s)) (dash_version (drop k s)))
       (rev [1..<Suc (length (takeWhile is_name_char s))])"

text \<open>\<open>PYTHON_VERSION = re.compile(r'-py(\d\.?\d?)$')\<close>, used with \<open>search\<close>: the start of
  the match and group 1.\<close>

fun PYTHON_VERSION_at :: "string \<Rightarrow> string option" where
  "PYTHON_VERSION_at (c1 # c2 # c3 # d # r) =
     (if c1 = CHR ''-'' \<and> c2 = CHR ''p'' \<and> c3 = CHR ''y'' \<and> is_digit d
      then first_some (\<lambda>t. if at_end (drop (length t) r) then Some (d # t) else None)
             (concat (map (\<lambda>a. map (\<lambda>b. a @ b) (opt is_digit (drop (length a) r)))
                        (opt (\<lambda>c. c = CHR ''.'') r)))
      else None)"
| "PYTHON_VERSION_at _ = None"

definition PYTHON_VERSION_search :: "string \<Rightarrow> (nat \<times> string) option" where
  "PYTHON_VERSION_search s = re_search PYTHON_VERSION_at 0 s"

section \<open>The filename parser: \<open>Locator.convert_url_to_download_info\<close>\<close>

text \<open>The result dictionary, with its two optional keys.\<close>

record download_info =
  di_name :: string
  di_version :: string
  di_filename :: string
  di_url :: string
  di_python_version :: "string option"
  di_md5_digest :: "string option"

text \<open>\<open>not project_name\<close>: the argument is \<open>None\<close> or the empty string.\<close>

definition falsy :: "string option \<Rightarrow> bool" where
  "falsy s = (case s of None \<Rightarrow> True | Some t \<Rightarrow> t = [])"

text \<open>The body of \<open>if path.endswith(ext):\<close> up to the \<open>break\<close>.\<close>

text \<open>\<open>path[:-len(ext)]\<close>, for a path that ends with \<open>ext\<close>\<close>

definition strip_ext :: "string \<Rightarrow> string \<Rightarrow> string" where
  "strip_ext filename ext = take (length filename - length ext) filename"

text \<open>The python-version tag and the path cut at the start of its match.\<close>

definition strip_pyver :: "string \<Rightarrow> string option \<times> string" where
  "strip_pyver path1 =
     (case PYTHON_VERSION_search path1 of
        Some (start, g) \<Rightarrow> (Some g, take start path1)
      | None \<Rightarrow> (None, path1))"

definition parse_basename ::
  "parsed_url \<Rightarrow> string option \<Rightarrow> string \<Rightarrow> string \<Rightarrow> download_info option \<times> log_record list" where
  "parse_basename p project_name filename ext =
     (let (pyver, path2) = strip_pyver (strip_ext filename ext)
      in case PROJECT_NAME_AND_VERSION_match path2 of
           None \<Rightarrow> (None, [(DEBUG, ''No match for project/version: %s'', [Str path2])])
         | Some (name, version) \<Rightarrow>
             if falsy project_name \<or> lower (the project_name) = lower name
             then (Some \<lparr>di_name = name, di_version = version, di_filename = filename,
                         di_url = urlunparse (p\<lparr>fragment := []\<rparr>),
                         di_python_version = (if falsy pyver then None else pyver),
                         di_md5_digest = MD5_HASH_match (fragment p)\<rparr>, [])
             else (None, []))"

text \<open>The loop \<open>for ext in EXTENSIONS\<close>: \<open>.egg\<close> is skipped, the first extension the
  file name ends with is handled and ends the loop.\<close>

fun ext_loop ::
  "parsed_url \<Rightarrow> string option \<Rightarrow> string \<Rightarrow> string list \<Rightarrow> download_info option \<times> log_record list" where
  "ext_loop p project_name filename [] = (None, [])"
| "ext_loop p project_name filename (ext # exts) =
     (if ext = ''.egg'' then ext_loop p project_name filename exts
      else if endswith filename ext then parse_basename p project_name filename ext
      else ext_loop p project_name filename exts)"

definition convert_url_to_download_info ::
  "string \<Rightarrow> string option \<Rightarrow> exn + (download_info option \<times> log_record list)" where
  "convert_url_to_download_info url project_name =
     (case urlparse url of
        Inl e \<Rightarrow> Inl e
      | Inr p \<Rightarrow>
          if endswith_any (path p) EXTENSIONS
          then Inr (ext_loop p project_name (basename (path p)) EXTENSIONS)
          else Inr (None, []))"


section \<open>Reading the patterns\<close>

text \<open>What is left of a file name once the extension and the python-version suffix are
  cut off: the text \<open>PROJECT_NAME_AND_VERSION\<close> is matched against.\<close>

definition remainder :: "string \<Rightarrow> string \<Rightarrow> string" where
  "remainder filename ext = snd (strip_pyver (strip_ext filename ext))"

text \<open>A way to read the start of \<open>s\<close> as a project name \<open>n\<close> over \<open>[a-z0-9_.-]\<close>
  (either case), a dash, and the digit \<open>d\<close> a version starts with.\<close>

definition name_version_split :: "string \<Rightarrow> string \<Rightarrow> char \<Rightarrow> bool" where
  "name_version_split s n d =
     (n \<noteq> [] \<and> list_all is_name_char n \<and> is_digit d \<and> prefix (n @ [CHR ''-'', d]) s)"

text \<open>A dash followed by a digit somewhere in the text.\<close>

fun has_dash_digit :: "string \<Rightarrow> bool" where
  "has_dash_digit (c # d # r) = ((c = CHR ''-'' \<and> is_digit d) \<or> has_dash_digit (d # r))"
| "has_dash_digit _ = False"


section \<open>The fetch layer: \<open>SimpleScrapingLocator.get_page\<close>\<close>

text \<open>\<open>\s\<close> of the patterns: space, tab, newline, carriage return, form feed, vertical tab.\<close>

definition is_space :: "char \<Rightarrow> bool" where
  "is_space c = (c \<in> set [CHR '' '', CHR 0x09, CHR 0x0A, CHR 0x0D, CHR 0x0C, CHR 0x0B])"

text \<open>\<open>CHARSET = re.compile(r';\s*charset\s*=\s*(.*)\s*$', re.I)\<close>, used with
  \<open>search\<close>: group 1. The two runs of white space before \<open>charset\<close> and before
  \<open>=\<close> can only be taken whole; the rest is tried in the engine's order: the longest
  white space, the longest text without a newline, the longest white space.\<close>

definition CHARSET_tail :: "string \<Rightarrow> string option" where
  "CHARSET_tail r =
     first_some (\<lambda>w.
        let r1 = drop w r in
        first_some (\<lambda>k.
           let r2 = drop k r1 in
           first_some (\<lambda>w2. if at_end (drop w2 r2) then Some (take k r1) else None)
             (rev [0..<Suc (length (takeWhile is_space r2))]))
          (rev [0..<Suc (length (takeWhile (\<lambda>c. c \<noteq> newline) r1))]))
       (rev [0..<Suc (length (takeWhile is_space r))])"

definition CHARSET_at :: "string \<Rightarrow> string option" where
  "CHARSET_at t =
     (case t of
        [] \<Rightarrow> None
      | c # r \<Rightarrow>
          if c = CHR '';'' then
            (let r1 = dropWhile is_space r in
             if lower (take 7 r1) = ''charset'' then
               (case dropWhile is_space (drop 7 r1) of
                  [] \<Rightarrow> None
                | e # r3 \<Rightarrow> if e = CHR ''='' then CHARSET_tail r3 else None)
             else None)
          else None)"

definition CHARSET_search :: "string \<Rightarrow> string option" where
  "CHARSET_search s = map_option snd (re_search CHARSET_at 0 s)"

text \<open>\<open>Page._base = re.compile(r"""<base\s+href\s*=\s*['"]?([^'">]+)""", re.I|re.S)\<close>,
  used with \<open>search\<close>: group 1.\<close>

definition is_quote :: "char \<Rightarrow> bool" where
  "is_quote c = (c = CHR 0x27 \<or> c = CHR 0x22)"

definition is_base_char :: "char \<Rightarrow> bool" where
  "is_base_char c = (\<not> is_quote c \<and> c \<noteq> CHR ''>'')"

definition base_tail :: "string \<Rightarrow> string option" where
  "base_tail r =
     first_some (\<lambda>w.
        let r1 = drop w r in
        first_some (\<lambda>q.
           let g = takeWhile is_base_char (drop (length q) r1) in
           if g \<noteq> [] then Some g else None)
          (opt is_quote r1))
       (rev [0..<Suc (length (takeWhile is_space r))])"

definition base_at :: "string \<Rightarrow> string option" where
  "base_at t =
     (if lower (take 5 t) = ''<base'' then
        (let r1 = drop 5 t; r2 = dropWhile is_space r1 in
         if takeWhile is_space r1 \<noteq> [] \<and> lower (take 4 r2) = ''href'' then
           (case dropWhile is_space (drop 4 r2) of
              [] \<Rightarrow> None
            | e # r3 \<Rightarrow> if e = CHR ''='' then base_tail r3 else None)
         else None)
      else None)"

definition base_search :: "string \<Rightarrow> string option" where
  "base_search s = map_option snd (re_search base_at 0 s)"

text \<open>\<open>Page.__init__\<close>\<close>

definition Page :: "string \<Rightarrow> string \<Rightarrow> page" where
  "Page data url =
     \<lparr>page_data = data,
      page_base_url = (case base_search data of Some b \<Rightarrow> b | None \<Rightarrow> url),
      page_url = url\<rparr>"

text \<open>
  What \<open>get_page\<close> and the worker get from outside the module. A request object is
  the URL and the headers it was built with. A response gives its two headers (absent
  when the server did not send them), its final URL and its body; reading the body can
  raise. \<open>Request\<close> is outside the \<open>try\<close> block of \<open>get_page\<close> and \<open>urlopen\<close> inside it;
  both can raise. \<open>isdir\<close> is \<open>os.path.isdir(url2pathname(path))\<close>, \<open>index_html\<close>
  is \<open>urljoin(ensure_slash(url), 'index.html')\<close>, \<open>decode\<close> is \<open>data.decode(encoding)\<close>
  with the encoding first, \<open>links\<close> is the property \<open>Page.links\<close> (a set; the list is
  the order it is iterated in), whose \<open>urljoin\<close> can raise, and \<open>project_url\<close> is
  \<open>urljoin(base_url, '%s/' % quote(name))\<close> with the base URL first.
\<close>

record request =
  req_url :: string
  req_headers :: "(string \<times> string) list"

record response =
  resp_content_type :: "string option"
  resp_content_encoding :: "string option"
  resp_geturl :: string
  resp_read :: "exn + string"

record env =
  isdir :: "string \<Rightarrow> bool"
  index_html :: "string \<Rightarrow> string"
  Request :: "string \<Rightarrow> (string \<times> string) list \<Rightarrow> exn + request"
  urlopen :: "request \<Rightarrow> exn + response"
  zlib_decompress :: "string \<Rightarrow> exn + string"
  decode :: "string \<Rightarrow> string \<Rightarrow> exn + string"
  links :: "page \<Rightarrow> exn + string list"
  project_url :: "string \<Rightarrow> string \<Rightarrow> string"

text \<open>
  The class attribute \<open>decoders\<close>. The body of the \<open>gzip\<close> entry,
  \<open>lambda b: gzip.GzipFile(fileobj=BytesIO(d)).read()\<close>, reads the name \<open>d\<close>, which
  is bound nowhere: calling it raises \<open>NameError\<close>.
\<close>

definition decoders :: "env \<Rightarrow> (string \<times> (string \<Rightarrow> exn + string)) list" where
  "decoders e = [(''deflate'', zlib_decompress e),
                 (''gzip'', \<lambda>b. Inl (NameError ''d''))]"

text \<open>\<open>if encoding: decoder = self.decoders[encoding]; data = decoder(data)\<close>\<close>

definition decode_body :: "env \<Rightarrow> string option \<Rightarrow> string \<Rightarrow> exn + string" where
  "decode_body e encoding data =
     (if falsy encoding then Inr data
      else (case map_of (decoders e) (the encoding) of
              None \<Rightarrow> Inl (KeyError (the encoding))
            | Some decoder \<Rightarrow> decoder data))"

type_synonym cache = "string \<Rightarrow> page option option"

text \<open>The \<open>try\<close> block of \<open>get_page\<close>: what it leaves in \<open>result\<close> and in the cache, or
  the exception it raised, and the records logged on the way.\<close>

definition fetch_try ::
  "env \<Rightarrow> cache \<Rightarrow> string \<Rightarrow> request \<Rightarrow> (exn + page option \<times> cache) \<times> log_record list" where
  "fetch_try e c url req =
     (case urlopen e req of
        Inl x \<Rightarrow> (Inl x, [(DEBUG, ''Fetching %s'', [Str url])])
      | Inr resp \<Rightarrow>
          (let logs = [(DEBUG, ''Fetching %s'', [Str url]), (DEBUG, ''Fetched %s'', [Str url])];
               content_type = (case resp_content_type resp of None \<Rightarrow> [] | Some t \<Rightarrow> t)
           in if \<not> HTML_CONTENT_TYPE_match content_type then (Inr (None, c), logs)
              else
                (let final_url = resp_geturl resp in
                 case resp_read resp of
                   Inl x \<Rightarrow> (Inl x, logs)
                 | Inr data \<Rightarrow>
                     (case decode_body e (resp_content_encoding resp) data of
                        Inl x \<Rightarrow> (Inl x, logs)
                      | Inr data1 \<Rightarrow>
                          (let encoding = (case CHARSET_search content_type of
                                             Some g \<Rightarrow> g | None \<Rightarrow> ''utf-8'')
                           in case decode e encoding data1 of
                                Inl x \<Rightarrow> (Inl x, logs)
                              | Inr text \<Rightarrow>
                                  (let result = Page text final_url
                                   in (Inr (Some result, c(final_url \<mapsto> Some result)),
                                       logs)))))))"

text \<open>The \<open>except\<close> clauses: a 404 is not logged, every other exception is.\<close>

definition fetch_except :: "string \<Rightarrow> exn \<Rightarrow> log_record list" where
  "fetch_except url x =
     (case x of
        HTTPError code \<Rightarrow>
          (if code \<noteq> 404 then [(ERROR, ''Fetch failed: %s: %s'', [Str url, ExnArg x])] else [])
      | _ \<Rightarrow> [(ERROR, ''Fetch failed: %s: %s'', [Str url, ExnArg x])])"

text \<open>The URL that is looked up in the cache and fetched: the \<open>index.html\<close> of a
  directory for a \<open>file\<close> URL that names one, else the URL given.\<close>

definition request_url :: "env \<Rightarrow> parsed_url \<Rightarrow> string \<Rightarrow> string" where
  "request_url e p url =
     (if scheme p = ''file'' \<and> isdir e (path p) then index_html e url else url)"

text \<open>\<open>get_page\<close>: the page or none, the cache afterwards and the records logged; \<open>Inl\<close>
  when an exception leaves the method.\<close>

definition get_page ::
  "env \<Rightarrow> cache \<Rightarrow> string \<Rightarrow> exn + page option \<times> cache \<times> log_record list" where
  "get_page e c url0 =
     (case urlparse url0 of
        Inl x \<Rightarrow> Inl x
      | Inr p \<Rightarrow>
          (let url = request_url e p url0 in
           case c url of
             Some result \<Rightarrow>
               Inr (result, c,
                    [(DEBUG, ''Returning %s from cache: %s'', [Str url, PageArg result])])
           | None \<Rightarrow>
               (case Request e url [(''Accept-encoding'', ''identity'')] of
                  Inl x \<Rightarrow> Inl x
                | Inr req \<Rightarrow>
                    (case fetch_try e c url req of
                       (Inr (result, c1), logs) \<Rightarrow> Inr (result, c1(url \<mapsto> result), logs)
                     | (Inl x, logs) \<Rightarrow>
                         Inr (None, c(url \<mapsto> None), logs @ fetch_except url x)))))"


section \<open>The crawler: \<open>SimpleScrapingLocator\<close>\<close>

text \<open>
  Modelled from the spec: \<open>Metadata\<close> and \<open>Distribution\<close> come from modules that are
  not part of the source at hand. A metadata record is "a mapping-like structure with at
  least Name, Version, Download-URL, Requires-Python fields, read/written by key",
  here an association list; reading a key that is not set gives \<open>UNKNOWN\<close>. A
  distribution holds its metadata, its checksum and the locator that found it (named by
  its base URL).
\<close>

type_synonym metadata = "(string \<times> string) list"

definition md_get :: "metadata \<Rightarrow> string \<Rightarrow> string" where
  "md_get md k = (case map_of md k of None \<Rightarrow> ''UNKNOWN'' | Some v \<Rightarrow> v)"

record distribution =
  dist_metadata :: metadata
  dist_md5_digest :: "string option"
  dist_locator :: "string option"

text \<open>A result dictionary, from version to distribution, in the order of its keys.\<close>

type_synonym 'v dict = "(string \<times> 'v) list"

text \<open>\<open>Locator._update_version_data\<close>\<close>

definition update_version_data ::
  "string \<Rightarrow> distribution dict \<Rightarrow> download_info \<Rightarrow> distribution dict" where
  "update_version_data self_url result info =
     (let version = di_version info;
          dist = (case map_of result version of
                    Some d \<Rightarrow> d
                  | None \<Rightarrow> \<lparr>dist_metadata = [(''Name'', di_name info), (''Version'', version)],
                             dist_md5_digest = None, dist_locator = None\<rparr>);
          dist1 = (case di_md5_digest info of
                     Some h \<Rightarrow> dist\<lparr>dist_md5_digest := Some h\<rparr> | None \<Rightarrow> dist);
          md = dist_metadata dist1;
          md1 = (case di_python_version info of
                   Some v \<Rightarrow> AList.update ''Requires-Python'' v md | None \<Rightarrow> md);
          md2 = (if md_get md1 ''Download-URL'' \<noteq> di_url info
                 then AList.update ''Download-URL'' (di_url info) md1 else md1)
      in AList.update version
           (dist1\<lparr>dist_metadata := md2, dist_locator := Some self_url\<rparr>) result)"

text \<open>
  The standard library's \<open>queue.Queue\<close>: the items (\<open>None\<close> is the sentinel) and the
  count of unfinished tasks, which \<open>put\<close> raises and \<open>task_done\<close> lowers; \<open>join\<close>
  returns once it is zero. The events on the queue are kept as well, a history the code
  does not have, to count them.
\<close>

datatype queue_event = PutEvent "string option" | GetEvent "string option" | TaskDoneEvent

record queue =
  items :: "string option list"
  unfinished_tasks :: nat
  history :: "queue_event list"

definition put :: "string option \<Rightarrow> queue \<Rightarrow> queue" where
  "put x q = q\<lparr>items := items q @ [x], unfinished_tasks := Suc (unfinished_tasks q),
               history := history q @ [PutEvent x]\<rparr>"

text \<open>\<open>get\<close> on a queue that is not empty (on an empty one the caller waits).\<close>

definition get :: "queue \<Rightarrow> string option \<times> queue" where
  "get q = (hd (items q), q\<lparr>items := tl (items q),
                              history := history q @ [GetEvent (hd (items q))]\<rparr>)"

definition task_done :: "queue \<Rightarrow> exn + queue" where
  "task_done q =
     (if unfinished_tasks q = 0 then Inl (ValueError ''task_done() called too many times'')
      else Inr (q\<lparr>unfinished_tasks := unfinished_tasks q - 1,
                   history := history q @ [TaskDoneEvent]\<rparr>))"

text \<open>A worker thread: waiting in \<open>get\<close>, holding the URL it took, gone through
  \<open>break\<close>, or ended by an exception.\<close>

datatype worker = Waiting | Holding "string option" | Exited | Died exn


definition is_ended :: "worker \<Rightarrow> bool" where
  "is_ended w = (case w of Exited \<Rightarrow> True | Died x \<Rightarrow> True | _ \<Rightarrow> False)"

text \<open>The instance: its attributes, the records it logged and its threads.\<close>

record locator =
  base_url :: string
  cache :: cache
  seen :: "string set"
  to_fetch :: queue
  num_workers :: nat
  project_name :: string
  result :: "distribution dict"
  threads :: "worker list"
  logged :: "log_record list"

text \<open>\<open>_process_download\<close>\<close>

definition process_download :: "locator \<Rightarrow> string \<Rightarrow> exn + download_info option \<times> locator" where
  "process_download st url =
     (case convert_url_to_download_info url (Some (project_name st)) of
        Inl x \<Rightarrow> Inl x
      | Inr (info, logs) \<Rightarrow>
          Inr (info,
               st\<lparr>logged := logged st @ logs,
                  result := (case info of
                               Some i \<Rightarrow> update_version_data (base_url st) (result st) i
                             | None \<Rightarrow> result st)\<rparr>))"

text \<open>\<open>_should_queue\<close>\<close>

definition should_queue :: "string \<Rightarrow> string \<Rightarrow> exn + bool \<times> log_record list" where
  "should_queue link referrer =
     (case urlparse link of
        Inl x \<Rightarrow> Inl x
      | Inr p \<Rightarrow>
          (let r = (if endswith_any (path p) (EXTENSIONS @ [''.exe'', ''.pdf'']) then False
                    else if scheme p \<notin> set [''http'', ''https''] then False
                    else (let host = fst (split_first (CHR '':'') (netloc p))
                          in if lower host = ''localhost'' then False else True))
           in Inr (r, if \<not> r then [(DEBUG, ''Not queueing %s from %s'', [Str link, Str referrer])]
                      else [])))"

text \<open>The loop \<open>for link in page.links\<close> of \<open>_fetch\<close>: the exception that ended it, if
  any, and the instance afterwards.\<close>

fun fetch_links :: "string \<Rightarrow> string list \<Rightarrow> locator \<Rightarrow> exn option \<times> locator" where
  "fetch_links url [] st = (None, st)"
| "fetch_links url (link # ls) st =
     (if link \<in> seen st then fetch_links url ls st
      else
        (let st1 = st\<lparr>seen := insert link (seen st)\<rparr> in
         case process_download st1 link of
           Inl x \<Rightarrow> (Some x, st1)
         | Inr (info, st2) \<Rightarrow>
             if info \<noteq> None then fetch_links url ls st2
             else
               (case should_queue link url of
                  Inl x \<Rightarrow> (Some x, st2)
                | Inr (q, logs) \<Rightarrow>
                    (let st3 = st2\<lparr>logged := logged st2 @ logs\<rparr> in
                     if q \<and> startswith url (base_url st3)
                     then fetch_links url ls
                            (st3\<lparr>logged := logged st3
                                    @ [(DEBUG, ''Queueing %s from %s'', [Str link, Str url])],
                                 to_fetch := put (Some link) (to_fetch st3)\<rparr>)
                     else fetch_links url ls st3))))"

text \<open>The \<open>try\<close> block of \<open>_fetch\<close> for a URL that is not the sentinel.\<close>

definition fetch_body :: "env \<Rightarrow> string \<Rightarrow> locator \<Rightarrow> exn option \<times> locator" where
  "fetch_body e url st =
     (case get_page e (cache st) url of
        Inl x \<Rightarrow> (Some x, st)
      | Inr (pg, c, logs) \<Rightarrow>
          (let st1 = st\<lparr>cache := c, logged := logged st @ logs\<rparr> in
           case pg of
             None \<Rightarrow> (None, st1)
           | Some p \<Rightarrow>
               (case links e p of
                  Inl x \<Rightarrow> (Some x, st1)
                | Inr ls \<Rightarrow> fetch_links url ls st1)))"

text \<open>
  One step of thread \<open>i\<close> in \<open>_fetch\<close>. A waiting thread takes the next item when there
  is one. A thread that holds an item runs the \<open>try\<close> block on it, then the \<open>finally\<close>
  clause, and goes on with the loop, leaves it (\<open>if not url: break\<close>) or ends with the
  exception.
\<close>

definition worker_step :: "env \<Rightarrow> nat \<Rightarrow> locator \<Rightarrow> locator" where
  "worker_step e i st =
     (if length (threads st) \<le> i then st
      else
        (case threads st ! i of
           Waiting \<Rightarrow>
             (if items (to_fetch st) = [] then st
              else (let (u, q) = get (to_fetch st)
                    in st\<lparr>to_fetch := q, threads := (threads st)[i := Holding u]\<rparr>))
         | Holding u \<Rightarrow>
             (let (exc, st1) = (if falsy u then (None, st) else fetch_body e (the u) st) in
              case task_done (to_fetch st1) of
                Inl x \<Rightarrow> st1\<lparr>threads := (threads st1)[i := Died x]\<rparr>
              | Inr q \<Rightarrow>
                  (let st2 = st1\<lparr>to_fetch := q\<rparr> in
                   case exc of
                     Some x \<Rightarrow> st2\<lparr>threads := (threads st2)[i := Died x]\<rparr>
                   | None \<Rightarrow>
                       if falsy u then st2\<lparr>threads := (threads st2)[i := Exited]\<rparr>
                       else st2\<lparr>threads := (threads st2)[i := Waiting]\<rparr>))
         | Exited \<Rightarrow> st
         | Died x \<Rightarrow> st))"

text \<open>The threads run in some order: a schedule names the thread of each step.\<close>

definition run :: "env \<Rightarrow> nat list \<Rightarrow> locator \<Rightarrow> locator" where
  "run e schedule st = fold (worker_step e) schedule st"

text \<open>\<open>_prepare_threads\<close>\<close>

definition prepare_threads :: "locator \<Rightarrow> locator" where
  "prepare_threads st = st\<lparr>threads := replicate (num_workers st) Waiting\<rparr>"

text \<open>\<open>_wait_threads\<close>: its first loop, and the whole method for a schedule the threads
  run in while it waits; \<open>None\<close> when a thread has not ended by then.\<close>

definition put_sentinels :: "locator \<Rightarrow> locator" where
  "put_sentinels st = st\<lparr>to_fetch := fold (\<lambda>t q. put None q) (threads st) (to_fetch st)\<rparr>"

definition wait_threads :: "env \<Rightarrow> nat list \<Rightarrow> locator \<Rightarrow> locator option" where
  "wait_threads e schedule st =
     (let st1 = run e schedule (put_sentinels st) in
      if list_all is_ended (threads st1) then Some (st1\<lparr>threads := []\<rparr>) else None)"

text \<open>\<open>get_project\<close> up to \<open>self._to_fetch.put(url)\<close>: the threads are started and
  the URL of the project is in the queue.\<close>

definition start_project :: "env \<Rightarrow> string \<Rightarrow> locator \<Rightarrow> locator" where
  "start_project e name st =
     (let st1 = prepare_threads (st\<lparr>result := [], project_name := name, seen := {}\<rparr>);
          url = project_url e (base_url st1) name
      in st1\<lparr>logged := logged st1 @ [(DEBUG, ''Queueing %s'', [Str url])],
             to_fetch := put (Some url) (to_fetch st1)\<rparr>)"

text \<open>\<open>get_project\<close>, for the schedules the threads run in during \<open>join\<close> and during
  \<open>_wait_threads\<close>; \<open>None\<close> when a wait has not ended by then.\<close>

definition get_project ::
  "env \<Rightarrow> nat list \<Rightarrow> nat list \<Rightarrow> string \<Rightarrow> locator \<Rightarrow> (distribution dict \<times> locator) option" where
  "get_project e schedule1 schedule2 name st =
     (let st3 = run e schedule1 (start_project e name st)
      in if unfinished_tasks (to_fetch st3) \<noteq> 0 then None
         else (case wait_threads e schedule2 st3 of
                 None \<Rightarrow> None
               | Some st4 \<Rightarrow> Some (result st4, st4)))"


section \<open>Reading the crawler\<close>

text \<open>What \<open>_should_queue\<close> asks of a parsed link: scheme \<open>http\<close> or \<open>https\<close>, a host
  other than \<open>localhost\<close>, and a path that ends in none of the archive extensions,
  \<open>.exe\<close> or \<open>.pdf\<close>.\<close>

definition in_scope :: "parsed_url \<Rightarrow> bool" where
  "in_scope p =
     (scheme p \<in> set [''http'', ''https'']
      \<and> lower (fst (split_first (CHR '':'') (netloc p))) \<noteq> ''localhost''
      \<and> \<not> endswith_any (path p) (EXTENSIONS @ [''.exe'', ''.pdf'']))"

text \<open>Several \<open>put\<close>s in a row.\<close>

definition puts :: "string option list \<Rightarrow> queue \<Rightarrow> queue" where
  "puts xs q = fold put xs q"







section \<open>\<open>AggregatingLocator\<close> and \<open>locate\<close>\<close>

text \<open>\<open>result.update(r)\<close>\<close>

definition dict_update :: "'v dict \<Rightarrow> 'v dict \<Rightarrow> 'v dict" where
  "dict_update d r = fold (\<lambda>(k, v) acc. AList.update k v acc) r d"

text \<open>A locator is its method \<open>get_project\<close>, which returns a dictionary or raises. The
  loop of \<open>AggregatingLocator.get_project\<close> gives its result and the number of locators
  it asked, which are the first ones of the list.\<close>

type_synonym 'v get_project = "string \<Rightarrow> exn + 'v dict"

fun aggregate_loop ::
  "bool \<Rightarrow> string \<Rightarrow> 'v get_project list \<Rightarrow> 'v dict \<Rightarrow> (exn + 'v dict) \<times> nat" where
  "aggregate_loop merge name [] res = (Inr res, 0)"
| "aggregate_loop merge name (locator # ls) res =
     (case locator name of
        Inl x \<Rightarrow> (Inl x, 1)
      | Inr r \<Rightarrow>
          if r \<noteq> [] then
            (if merge
             then (let (out, n) = aggregate_loop merge name ls (dict_update res r)
                   in (out, Suc n))
             else (Inr r, 1))
          else (let (out, n) = aggregate_loop merge name ls res in (out, Suc n)))"

definition aggregating_get_project ::
  "bool \<Rightarrow> 'v get_project list \<Rightarrow> string \<Rightarrow> (exn + 'v dict) \<times> nat" where
  "aggregating_get_project merge locators name = aggregate_loop merge name locators []"

text \<open>
  \<open>locate\<close>. \<open>VersionPredicate\<close> and \<open>legacy_version_key\<close> come from the \<open>version\<close>
  module, which is not part of the source at hand, and \<open>default_locator\<close> is a module
  constant built from a locator that needs the network: the three are parameters. A
  parsed predicate is the project name and the method \<open>match\<close>, which can raise.
\<close>

record version_predicate =
  vp_name :: string
  vp_match :: "string \<Rightarrow> exn + bool"

definition locate ::
  "(string \<Rightarrow> exn + version_predicate) \<Rightarrow> 'v get_project \<Rightarrow> (string \<Rightarrow> 'k::linorder)
     \<Rightarrow> string \<Rightarrow> exn + 'v option" where
  "locate VersionPredicate default_locator legacy_version_key predicate =
     (case VersionPredicate predicate of
        Inl x \<Rightarrow> Inl x
      | Inr vp \<Rightarrow>
          (case default_locator (vp_name vp) of
             Inl x \<Rightarrow> Inl x
           | Inr versions \<Rightarrow>
               Inr (if versions \<noteq> [] then
                      (let slist = filter (\<lambda>k. vp_match vp k = Inr True) (map fst versions);
                           slist1 = (if length slist > 1
                                     then sort_key legacy_version_key slist else slist)
                       in if slist1 \<noteq> [] then map_of versions (last slist1) else None)
                    else None)))"


section \<open>An example index\<close>

text \<open>
  A small world to run the definitions in: a server at \<open>example.org\<close> whose pages come
  with different content encodings and failures, and a local directory without an
  \<open>index.html\<close>. Decompression and decoding are marked in the text they return.
\<close>

definition example_response :: "string \<Rightarrow> string option \<Rightarrow> string \<Rightarrow> response" where
  "example_response url encoding body =
     \<lparr>resp_content_type = Some ''text/html; charset=latin-1'',
      resp_content_encoding = encoding, resp_geturl = url, resp_read = Inr body\<rparr>"

definition example_urlopen :: "request \<Rightarrow> exn + response" where
  "example_urlopen r =
     (let url = req_url r in
      if url = ''http://example.org/simple/foo/''
        then Inr (example_response url None
               (''<a href=foo-1.0.tar.gz>'' @ ''<a href=http://other.example/foo/>''))
      else if url = ''http://other.example/foo/''
        then Inr (example_response url None
               (''<a href=foo-2.0.zip>'' @ ''<a href=http://example.org/simple/bar/>''))
      else if url = ''http://example.org/simple/deflate/''
        then Inr (example_response url (Some ''deflate'') ''abc'')
      else if url = ''http://example.org/simple/gzip/''
        then Inr (example_response url (Some ''gzip'') ''abc'')
      else if url = ''http://example.org/simple/br/''
        then Inr (example_response url (Some ''br'') ''abc'')
      else if url = ''http://example.org/simple/bad/''
        then Inr (example_response url None
               (''<a href=../foo/>'' @ ''<a href=http://&#91;broken/>''))
      else if url = ''http://example.org/simple/missing/'' then Inl (HTTPError 404)
      else if url = ''http://example.org/simple/broken/'' then Inl (HTTPError 500)
      else Inl (URLError ''unreachable''))"

definition example_links :: "page \<Rightarrow> exn + string list" where
  "example_links p =
     (if page_url p = ''http://example.org/simple/foo/''
        then Inr [''http://example.org/simple/foo/foo-1.0.tar.gz'', ''http://other.example/foo/'']
      else if page_url p = ''http://other.example/foo/''
        then Inr [''http://other.example/foo/foo-2.0.zip'', ''http://example.org/simple/bar/'']
      else if page_url p = ''http://example.org/simple/bad/''
        then Inr [''http://example.org/simple/foo/'', ''http://[broken/'']
      else Inr [])"

definition example_env :: env where
  "example_env =
     \<lparr>isdir = (\<lambda>p. p = ''/srv/index''),
      index_html = (\<lambda>url. (if endswith url ''/'' then url else url @ ''/'') @ ''index.html''),
      Request = (\<lambda>url headers. Inr \<lparr>req_url = url, req_headers = headers\<rparr>),
      urlopen = example_urlopen,
      zlib_decompress = (\<lambda>b. Inr (''inflated '' @ b)),
      decode = (\<lambda>encoding b. Inr (encoding @ '' '' @ b)),
      links = example_links,
      project_url = (\<lambda>base name. base @ name @ ''/'')\<rparr>"

definition example_locator :: locator where
  "example_locator =
     \<lparr>base_url = ''http://example.org/simple/'', cache = Map.empty, seen = {},
      to_fetch = \<lparr>items = [], unfinished_tasks = 0, history = []\<rparr>,
      num_workers = 2, project_name = [], result = [], threads = [], logged = []\<rparr>"

text \<open>Three locators for \<open>AggregatingLocator\<close>, with the names of their records as
  values, and a predicate for \<open>locate\<close> whose \<open>match\<close> fails on the version \<open>bogus\<close>.\<close>

definition example_locator_a :: "string get_project" where
  "example_locator_a name = Inr []"

definition example_locator_b :: "string get_project" where
  "example_locator_b name = Inr [(''1.0'', ''b-1.0'')]"

definition example_locator_c :: "string get_project" where
  "example_locator_c name = Inr [(''1.0'', ''c-1.0''), (''2.0'', ''c-2.0'')]"

definition example_match :: "string \<Rightarrow> exn + bool" where
  "example_match v =
     (if v = ''bogus'' then Inl (ValueError ''invalid version'')
      else Inr (v = ''1.0'' \<or> v = ''2.0''))"

definition example_vp :: version_predicate where
  "example_vp = \<lparr>vp_name = ''foo'', vp_match = example_match\<rparr>"

definition example_VersionPredicate :: "string \<Rightarrow> exn + version_predicate" where
  "example_VersionPredicate s =
     (if s = ''foo (>=1.0, <3.0)'' then Inr example_vp else Inl (ValueError ''bad predicate''))"

definition example_versions :: "string get_project" where
  "example_versions name =
     Inr [(''1.0'', ''foo-1.0''), (''3.0'', ''foo-3.0''), (''bogus'', ''foo-bogus''),
          (''2.0'', ''foo-2.0'')]"

definition example_key :: "string \<Rightarrow> nat" where
  "example_key v = (if v = ''1.0'' then 1 else if v = ''2.0'' then 2
                    else if v = ''3.0'' then 3 else 0)"

section \<open>Lists and backtracking\<close>

lemma first_some_None: "first_some f xs = None \<longleftrightarrow> (\<forall>x \<in> set xs. f x = None)"
  by (induction xs) (auto split: option.splits)

lemma first_some_down:
  "first_some f (rev [1..<Suc n]) = Some y \<longleftrightarrow>
     (\<exists>k. 1 \<le> k \<and> k \<le> n \<and> f k = Some y \<and> (\<forall>j. k < j \<and> j \<le> n \<longrightarrow> f j = None))"
proof (induction n)
  case 0
  then show ?case by simp
next
  case (Suc n)
  show ?case
  proof (cases "f (Suc n)")
    case None
    have "(\<exists>k. 1 \<le> k \<and> k \<le> Suc n \<and> f k = Some y \<and> (\<forall>j. k < j \<and> j \<le> Suc n \<longrightarrow> f j = None))
        \<longleftrightarrow> (\<exists>k. 1 \<le> k \<and> k \<le> n \<and> f k = Some y \<and> (\<forall>j. k < j \<and> j \<le> n \<longrightarrow> f j = None))"
      (is "?L \<longleftrightarrow> ?R")
    proof
      assume ?L
      then obtain k where k: "1 \<le> k" "k \<le> Suc n" "f k = Some y"
        "\<forall>j. k < j \<and> j \<le> Suc n \<longrightarrow> f j = None" by blast
      with None have "k \<noteq> Suc n" by auto
      with k show ?R by (intro exI [of _ k]) auto
    next
      assume ?R
      then obtain k where k: "1 \<le> k" "k \<le> n" "f k = Some y"
        "\<forall>j. k < j \<and> j \<le> n \<longrightarrow> f j = None" by blast
      have "\<forall>j. k < j \<and> j \<le> Suc n \<longrightarrow> f j = None"
        using k(4) None by (auto simp: le_Suc_eq)
      with k show ?L by (intro exI [of _ k]) auto
    qed
    with None Suc show ?thesis by simp
  next
    case (Some z)
    have "(\<exists>k. 1 \<le> k \<and> k \<le> Suc n \<and> f k = Some y \<and> (\<forall>j. k < j \<and> j \<le> Suc n \<longrightarrow> f j = None))
        \<longleftrightarrow> z = y" (is "?L \<longleftrightarrow> _")
    proof
      assume ?L
      then obtain k where k: "1 \<le> k" "k \<le> Suc n" "f k = Some y"
        "\<forall>j. k < j \<and> j \<le> Suc n \<longrightarrow> f j = None" by blast
      have "k = Suc n"
      proof (rule ccontr)
        assume "k \<noteq> Suc n"
        with k have "f (Suc n) = None" by auto
        with Some show False by simp
      qed
      with k Some show "z = y" by simp
    next
      assume "z = y"
      with Some show ?L by (intro exI [of _ "Suc n"]) auto
    qed
    with Some show ?thesis by simp
  qed
qed

lemma take_takeWhile:
  assumes "k \<le> length (takeWhile P t)"
  shows "take k (takeWhile P t) = take k t"
proof -
  have "take k t = take k (takeWhile P t @ dropWhile P t)" by simp
  also have "\<dots> = take k (takeWhile P t)"
    using assms by (simp del: takeWhile_dropWhile_id)
  finally show ?thesis by simp
qed





section \<open>Extensions\<close>

lemma suffix_basename:
  assumes "suffix e p" and "CHR ''/'' \<notin> set e"
  shows "suffix e (basename p)"
proof -
  from assms(1) obtain q where p: "p = q @ e" by (auto simp: suffix_def)
  have "takeWhile (\<lambda>c. c \<noteq> CHR ''/'') (rev e @ rev q)
          = rev e @ takeWhile (\<lambda>c. c \<noteq> CHR ''/'') (rev q)"
    using assms(2) by (intro takeWhile_append2) auto
  then have "basename p = rev (takeWhile (\<lambda>c. c \<noteq> CHR ''/'') (rev q)) @ e"
    by (simp add: basename_def p)
  then show ?thesis by (simp add: suffix_def)
qed

lemma endswith_exclusive:
  assumes "endswith s a" and "endswith s b"
  shows "suffix a b \<or> suffix b a"
  using assms unfolding endswith_def by (rule suffix_same_cases)

lemma ext_loop_egg:
  assumes "endswith filename ''.egg''"
  shows "ext_loop p expected filename EXTENSIONS = (None, [])"
proof -
  have "\<not> endswith filename e" if "e \<in> set [''.tar.gz'', ''.tar.bz2'', ''.tar'', ''.zip'', ''.tgz'']" for e
    using endswith_exclusive [OF assms, of e] that
    by (auto simp: suffix_to_prefix)
  then show ?thesis by (simp add: EXTENSIONS_def)
qed

lemma ext_loop_ext:
  assumes "ext \<in> set (butlast EXTENSIONS)" and "endswith filename ext"
  shows "ext_loop p expected filename EXTENSIONS = parse_basename p expected filename ext"
proof -
  have excl: "\<not> endswith filename e"
    if "e \<in> set (butlast EXTENSIONS)" "e \<noteq> ext" for e
    using endswith_exclusive [OF assms(2), of e] that assms(1)
    by (auto simp: suffix_to_prefix EXTENSIONS_def)
  show ?thesis
    using assms excl by (auto simp: EXTENSIONS_def)
qed

lemma endswith_basename:
  assumes "ext \<in> set EXTENSIONS" and "endswith pth ext"
  shows "endswith (basename pth) ext"
  using assms unfolding endswith_def
  by (intro suffix_basename) (auto simp: EXTENSIONS_def)

lemma endswith_any_EXTENSIONS:
  "ext \<in> set EXTENSIONS \<Longrightarrow> endswith pth ext \<Longrightarrow> endswith_any pth EXTENSIONS"
  by (auto simp: endswith_any_def list_ex_iff)


section \<open>The name and version pattern\<close>

lemma take_all_le_takeWhile:
  assumes "list_all P (take k s)" and "k \<le> length s"
  shows "k \<le> length (takeWhile P s)"
proof -
  have "s = take k s @ drop k s" by simp
  then have "takeWhile P s = take k s @ takeWhile P (drop k s)"
    using assms(1) by (metis list_all_iff takeWhile_append2)
  then show ?thesis using assms(2) by simp
qed

lemma dash_version_Some:
  "dash_version s = Some v \<longleftrightarrow>
     (\<exists>d t. s = CHR ''-'' # d # t \<and> is_digit d \<and> v = d # takeWhile is_version_char t)"
  by (cases s rule: dash_version.cases) auto

lemma name_version_split_iff:
  "name_version_split s n d \<longleftrightarrow>
     1 \<le> length n \<and> length n \<le> length (takeWhile is_name_char s) \<and> n = take (length n) s
     \<and> (\<exists>t. drop (length n) s = CHR ''-'' # d # t) \<and> is_digit d"
  (is "?L \<longleftrightarrow> ?R")
proof
  assume ?L
  then obtain t where t: "s = n @ CHR ''-'' # d # t" and n: "n \<noteq> []" "list_all is_name_char n"
    and d: "is_digit d"
    by (auto simp: name_version_split_def prefix_def)
  have "length n \<le> length (takeWhile is_name_char s)"
    by (rule take_all_le_takeWhile) (use t n in auto)
  with t n d show ?R by (auto simp: Suc_le_eq)
next
  assume r: ?R
  then obtain t where t: "drop (length n) s = CHR ''-'' # d # t" by blast
  from r have k: "length n \<le> length (takeWhile is_name_char s)" and n: "n = take (length n) s"
    by blast+
  have "take (length n) (takeWhile is_name_char s) = take (length n) s"
    using k by (rule take_takeWhile)
  with n have "set n \<subseteq> set (takeWhile is_name_char s)"
    by (metis set_take_subset)
  then have all: "list_all is_name_char n"
    by (auto simp: list_all_iff dest: set_takeWhileD)
  have "s = take (length n) s @ drop (length n) s" by simp
  with n t have "s = n @ CHR ''-'' # d # t" by metis
  then have "prefix (n @ [CHR ''-'', d]) s" by (simp add: prefix_def)
  with r all show ?L by (auto simp: name_version_split_def)
qed

lemma PROJECT_NAME_AND_VERSION_match_Some:
  "PROJECT_NAME_AND_VERSION_match s = Some (n, v) \<longleftrightarrow>
     (\<exists>d. name_version_split s n d
        \<and> v = d # takeWhile is_version_char (drop (length n + 2) s)
        \<and> (\<forall>n' d'. name_version_split s n' d' \<longrightarrow> length n' \<le> length n))"
  (is "?L \<longleftrightarrow> ?R")
proof
  define run where "run = length (takeWhile is_name_char s)"
  have run_le: "run \<le> length s" unfolding run_def by (rule length_takeWhile_le)
  assume ?L
  then obtain k where k: "1 \<le> k" "k \<le> run" "n = take k s" "dash_version (drop k s) = Some v"
    and maxk: "\<forall>j. k < j \<and> j \<le> run \<longrightarrow> dash_version (drop j s) = None"
    unfolding PROJECT_NAME_AND_VERSION_match_def first_some_down run_def by auto
  from k(4) obtain d t where dt: "drop k s = CHR ''-'' # d # t" "is_digit d"
    "v = d # takeWhile is_version_char t"
    unfolding dash_version_Some by blast
  have len: "length n = k" using k(2,3) run_le by simp
  have split: "name_version_split s n d"
    unfolding name_version_split_iff using k dt len run_def by auto
  have "drop (k + 2) s = t"
    using dt(1) by (metis add_2_eq_Suc' drop_Suc drop_drop list.sel(3) tl_drop add.commute)
  then have v: "v = d # takeWhile is_version_char (drop (length n + 2) s)"
    using dt(3) len by simp
  have "length n' \<le> length n" if "name_version_split s n' d'" for n' d'
  proof (rule ccontr)
    assume "\<not> length n' \<le> length n"
    then have "k < length n'" using len by simp
    moreover from that obtain t' where "length n' \<le> run" "drop (length n') s = CHR ''-'' # d' # t'"
      "is_digit d'"
      unfolding name_version_split_iff run_def by blast
    ultimately show False using maxk by (auto simp: dash_version_Some)
  qed
  with split v show ?R by blast
next
  define run where "run = length (takeWhile is_name_char s)"
  assume ?R
  then obtain d where split: "name_version_split s n d"
    and v: "v = d # takeWhile is_version_char (drop (length n + 2) s)"
    and maxn: "\<forall>n' d'. name_version_split s n' d' \<longrightarrow> length n' \<le> length n" by blast
  from split obtain t where k: "1 \<le> length n" "length n \<le> run" "n = take (length n) s"
    "drop (length n) s = CHR ''-'' # d # t" "is_digit d"
    unfolding name_version_split_iff run_def by blast
  have "drop (length n + 2) s = t"
    using k(4) by (metis add_2_eq_Suc' drop_Suc drop_drop list.sel(3) tl_drop add.commute)
  with v k have dv: "dash_version (drop (length n) s) = Some v"
    by (simp add: dash_version_Some)
  have none: "dash_version (drop j s) = None" if "length n < j" "j \<le> run" for j
  proof (rule ccontr)
    assume "dash_version (drop j s) \<noteq> None"
    then obtain w where "dash_version (drop j s) = Some w" by auto
    then obtain d' t' where dt': "drop j s = CHR ''-'' # d' # t'" "is_digit d'"
      unfolding dash_version_Some by blast
    have "j \<le> length s" using that(2) run_def length_takeWhile_le [of is_name_char s] by simp
    then have "length (take j s) = j" by simp
    then have "name_version_split s (take j s) d'"
      unfolding name_version_split_iff using that dt' run_def by auto
    with maxn have "length (take j s) \<le> length n" by blast
    with \<open>length (take j s) = j\<close> that(1) show False by simp
  qed
  show ?L
    unfolding PROJECT_NAME_AND_VERSION_match_def first_some_down
    using k dv none by (intro exI [of _ "length n"]) (auto simp: run_def)
qed

lemma PROJECT_NAME_AND_VERSION_match_None:
  "PROJECT_NAME_AND_VERSION_match s = None \<longleftrightarrow> (\<forall>n d. \<not> name_version_split s n d)"
  (is "?L \<longleftrightarrow> ?R")
proof
  assume l: ?L
  show ?R
  proof (intro allI notI)
    fix n d assume "name_version_split s n d"
    then obtain t where k: "1 \<le> length n" "length n \<le> length (takeWhile is_name_char s)"
      "drop (length n) s = CHR ''-'' # d # t" "is_digit d"
      unfolding name_version_split_iff by blast
    then have "length n \<in> set (rev [1..<Suc (length (takeWhile is_name_char s))])" by auto
    with l have "dash_version (drop (length n) s) = None"
      unfolding PROJECT_NAME_AND_VERSION_match_def first_some_None by auto
    with k show False by simp
  qed
next
  assume r: ?R
  show ?L
  proof (rule ccontr)
    assume "\<not> ?L"
    then obtain n v where "PROJECT_NAME_AND_VERSION_match s = Some (n, v)" by auto
    with r show False unfolding PROJECT_NAME_AND_VERSION_match_Some by blast
  qed
qed


section \<open>The python-version pattern\<close>

lemma re_search_None:
  "re_search m i s = None \<longleftrightarrow> (\<forall>j \<le> length s. m (drop j s) = None)"
proof (induction s arbitrary: i)
  case Nil
  then show ?case by (auto split: option.splits)
next
  case (Cons c s)
  show ?case
  proof (cases "m (c # s)")
    case None
    have "(\<forall>j \<le> length (c # s). m (drop j (c # s)) = None)
            \<longleftrightarrow> (\<forall>j \<le> length s. m (drop j s) = None)" (is "?A \<longleftrightarrow> ?B")
    proof
      assume a: ?A
      show ?B
      proof (intro allI impI)
        fix j assume "j \<le> length s"
        with a have "m (drop (Suc j) (c # s)) = None" by (metis Suc_le_mono length_Cons)
        then show "m (drop j s) = None" by simp
      qed
    next
      assume b: ?B
      show ?A
      proof (intro allI impI)
        fix j assume j: "j \<le> length (c # s)"
        show "m (drop j (c # s)) = None"
        proof (cases j)
          case 0
          with None show ?thesis by simp
        next
          case (Suc k)
          with j b show ?thesis by simp
        qed
      qed
    qed
    with None Cons.IH [of "Suc i"] show ?thesis by simp
  next
    case (Some g)
    then have "\<not> (\<forall>j \<le> length (c # s). m (drop j (c # s)) = None)"
      by (metis drop0 le0 option.distinct(1))
    with Some show ?thesis by simp
  qed
qed

lemma first_some_SomeD:
  "first_some f xs = Some y \<Longrightarrow> \<exists>x \<in> set xs. f x = Some y"
  by (induction xs) (auto split: option.splits)

lemma opt_cases:
  assumes "a \<in> set (opt P s)"
  shows "prefix a s \<and> (a = [] \<or> (\<exists>c. a = [c] \<and> P c))"
  using assms by (cases s) (auto simp: opt_def split: if_splits)

lemma PYTHON_VERSION_at_Some:
  assumes "PYTHON_VERSION_at t = Some g"
  shows "\<exists>d a b e. t = ''-py'' @ d # a @ b @ e \<and> g = d # a @ b \<and> is_digit d
           \<and> (a = [] \<or> a = ''.'') \<and> (b = [] \<or> (\<exists>c. b = [c] \<and> is_digit c)) \<and> at_end e"
proof -
  from assms obtain c1 c2 c3 d r where t: "t = c1 # c2 # c3 # d # r"
    by (cases t rule: PYTHON_VERSION_at.cases) auto
  let ?cands = "concat (map (\<lambda>a. map (\<lambda>b. a @ b) (opt is_digit (drop (length a) r)))
                        (opt (\<lambda>c. c = CHR ''.'') r))"
  from assms t have c: "c1 = CHR ''-''" "c2 = CHR ''p''" "c3 = CHR ''y''" "is_digit d"
    and f: "first_some (\<lambda>t. if at_end (drop (length t) r) then Some (d # t) else None) ?cands
              = Some g"
    by (auto split: if_splits)
  have "\<exists>x \<in> set ?cands. at_end (drop (length x) r) \<and> g = d # x"
    using first_some_SomeD [OF f] by (auto split: if_splits)
  then obtain x where x: "x \<in> set ?cands" "at_end (drop (length x) r)" "g = d # x" by blast
  from x(1) obtain a b where ab: "x = a @ b" "a \<in> set (opt (\<lambda>c. c = CHR ''.'') r)"
    "b \<in> set (opt is_digit (drop (length a) r))" by auto
  from opt_cases [OF ab(2)] have a: "prefix a r" "a = [] \<or> a = ''.''" by auto
  from opt_cases [OF ab(3)] have b: "prefix b (drop (length a) r)"
    "b = [] \<or> (\<exists>c. b = [c] \<and> is_digit c)" by auto
  from a(1) obtain r1 where r1: "r = a @ r1" by (auto simp: prefix_def)
  with b(1) obtain r2 where r2: "r1 = b @ r2" by (auto simp: prefix_def)
  have "drop (length x) r = r2" by (simp add: ab(1) r1 r2)
  with x(2) have "at_end r2" by simp
  with t c r1 r2 x(3) ab(1) a(2) b(2) show ?thesis
    by (intro exI [of _ d] exI [of _ a] exI [of _ b] exI [of _ r2]) simp
qed


section \<open>Base names of the form name-version\<close>

lemma version_char_facts:
  assumes "is_version_char c"
  shows "c \<noteq> CHR ''p''" and "c \<noteq> newline" and "is_name_char c"
  using assms by (auto simp: is_version_char_def is_name_char_def digits_def newline_def)

lemma digit_facts:
  assumes "is_digit c"
  shows "c \<noteq> CHR ''-''" and "c \<noteq> CHR ''p''" and "is_version_char c"
  using assms by (auto simp: is_digit_def is_version_char_def digits_def)

lemma PYTHON_VERSION_at_shape:
  assumes "PYTHON_VERSION_at t = Some g"
  shows "\<exists>u. t = CHR ''-'' # CHR ''p'' # u \<and> CHR ''-'' \<notin> set u"
proof -
  from PYTHON_VERSION_at_Some [OF assms] obtain d a b e where
    t: "t = ''-py'' @ d # a @ b @ e" and d: "is_digit d" and a: "a = [] \<or> a = ''.''"
    and b: "b = [] \<or> (\<exists>c. b = [c] \<and> is_digit c)" and e: "at_end e" by blast
  have "CHR ''-'' \<notin> set a" using a by auto
  moreover have "CHR ''-'' \<notin> set b" using b digit_facts(1) [of "CHR ''-''"] by auto
  moreover have "CHR ''-'' \<notin> set e" using e by (auto simp: at_end_def newline_def)
  moreover have "d \<noteq> CHR ''-''" using d by (rule digit_facts(1))
  ultimately have "CHR ''-'' \<notin> set (CHR ''y'' # d # a @ b @ e)" by auto
  with t show ?thesis by (intro exI [of _ "CHR ''y'' # d # a @ b @ e"]) simp
qed

lemma PYTHON_VERSION_search_name_version:
  assumes v: "version \<noteq> []" "list_all is_version_char version" "is_digit (hd version)"
  shows "PYTHON_VERSION_search (name @ CHR ''-'' # version) = None"
proof -
  let ?s = "name @ CHR ''-'' # version"
  have "PYTHON_VERSION_at (drop j ?s) = None" for j
  proof (rule ccontr)
    assume "PYTHON_VERSION_at (drop j ?s) \<noteq> None"
    then obtain g where "PYTHON_VERSION_at (drop j ?s) = Some g" by auto
    from PYTHON_VERSION_at_shape [OF this] obtain u where
      t: "drop j ?s = CHR ''-'' # CHR ''p'' # u" and u: "CHR ''-'' \<notin> set u" by blast
    have p_notin: "CHR ''p'' \<notin> set version"
      using v(2) version_char_facts(1) by (auto simp: list_all_iff)
    have "suffix (drop j ?s) ?s" by (rule suffix_drop)
    then have "suffix (CHR ''-'' # CHR ''p'' # u) (name @ CHR ''-'' # version)"
      using t by simp
    then consider "suffix (CHR ''-'' # CHR ''p'' # u) (CHR ''-'' # version)"
      | x where "CHR ''-'' # CHR ''p'' # u = x @ CHR ''-'' # version"
      unfolding suffix_append by blast
    then show False
    proof cases
      case 1
      then have "CHR ''-'' # CHR ''p'' # u = CHR ''-'' # version
                   \<or> suffix (CHR ''-'' # CHR ''p'' # u) version"
        by (simp add: suffix_Cons)
      then show False
      proof
        assume "CHR ''-'' # CHR ''p'' # u = CHR ''-'' # version"
        then have "CHR ''p'' \<in> set version" by auto
        with p_notin show False by simp
      next
        assume "suffix (CHR ''-'' # CHR ''p'' # u) version"
        then have "set (CHR ''-'' # CHR ''p'' # u) \<subseteq> set version" by (rule set_mono_suffix)
        with p_notin show False by simp
      qed
    next
      case 2
      show False
      proof (cases x)
        case Nil
        with 2 have "CHR ''p'' \<in> set version" by auto
        with p_notin show False by simp
      next
        case (Cons y ys)
        with 2 have "CHR ''p'' # u = ys @ CHR ''-'' # version" by simp
        then have "CHR ''-'' \<in> set (CHR ''p'' # u)" by simp
        with u show False by simp
      qed
    qed
  qed
  then show ?thesis by (simp add: PYTHON_VERSION_search_def re_search_None)
qed

lemma has_dash_digit_drop:
  assumes "drop j v = CHR ''-'' # d # t" and "is_digit d"
  shows "has_dash_digit v"
  using assms
proof (induction v arbitrary: j)
  case Nil
  then show ?case by simp
next
  case (Cons c v)
  show ?case
  proof (cases j)
    case 0
    with Cons.prems show ?thesis by simp
  next
    case (Suc k)
    with Cons.prems have k: "drop k v = CHR ''-'' # d # t" by simp
    then have "has_dash_digit v" using Cons.prems(2) by (rule Cons.IH)
    moreover from k obtain e r where "v = e # r" by (cases v) auto
    ultimately show ?thesis by simp
  qed
qed

lemma match_name_version:
  assumes n: "name \<noteq> []" "list_all is_name_char name"
    and v: "version \<noteq> []" "list_all is_version_char version" "is_digit (hd version)"
    and nd: "\<not> has_dash_digit version"
  shows "PROJECT_NAME_AND_VERSION_match (name @ CHR ''-'' # version) = Some (name, version)"
proof -
  let ?s = "name @ CHR ''-'' # version"
  from v obtain d vs where ver: "version = d # vs" and d: "is_digit d"
    by (cases version) auto
  have vs: "\<forall>x \<in> set vs. is_version_char x" using v(2) ver by (simp add: list_all_iff)
  have split: "name_version_split ?s name d"
    using n d by (simp add: name_version_split_def ver)
  have "drop (length name + 2) ?s = vs" by (simp add: ver)
  moreover have "takeWhile is_version_char vs = vs" using vs by (simp add: takeWhile_eq_all_conv)
  ultimately have "takeWhile is_version_char (drop (length name + 2) ?s) = vs" by simp
  then have ver2: "version = d # takeWhile is_version_char (drop (length name + 2) ?s)"
    using ver by (simp only:)
  have "length n' \<le> length name" if s': "name_version_split ?s n' d'" for n' d'
  proof (rule ccontr)
    assume "\<not> length n' \<le> length name"
    then have gt: "length name < length n'" by simp
    from s' obtain t' where t': "drop (length n') ?s = CHR ''-'' # d' # t'" and d': "is_digit d'"
      unfolding name_version_split_iff by blast
    have "drop (length n') ?s = drop (length n' - length name - 1) version"
      using gt by (simp add: drop_Cons')
    with t' have "drop (length n' - length name - 1) version = CHR ''-'' # d' # t'" by simp
    from has_dash_digit_drop [OF this d'] nd show False by simp
  qed
  with split ver2 show ?thesis
    unfolding PROJECT_NAME_AND_VERSION_match_Some by blast
qed


section \<open>The components of a parsed URL\<close>

lemma lower_char_range: "lower_char c = c \<or> lower_char c \<in> set ascii_lowercase"
proof (cases "map_of (zip ascii_uppercase ascii_lowercase) c")
  case None
  then show ?thesis by (simp add: lower_char_def)
next
  case (Some l)
  then have "(c, l) \<in> set (zip ascii_uppercase ascii_lowercase)" by (rule map_of_SomeD)
  then have "l \<in> set ascii_lowercase" by (rule set_zip_rightD)
  with Some show ?thesis by (simp add: lower_char_def)
qed

lemma hash_not_lowercase: "CHR ''#'' \<notin> set ascii_lowercase"
  by (simp add: ascii_lowercase_def)

lemma hash_notin_lower:
  assumes "CHR ''#'' \<notin> set s"
  shows "CHR ''#'' \<notin> set (lower s)"
proof
  assume "CHR ''#'' \<in> set (lower s)"
  then obtain c where c: "c \<in> set s" "lower_char c = CHR ''#''" by (auto simp: lower_def)
  from lower_char_range [of c] c(2) hash_not_lowercase have "c = CHR ''#''" by auto
  with c(1) assms show False by simp
qed

lemma hash_not_scheme_char: "CHR ''#'' \<notin> set scheme_chars"
  by (simp add: scheme_chars_def ascii_lowercase_def ascii_uppercase_def digits_def)

lemma urlsplit_scheme_no_hash:
  assumes "urlsplit_scheme url = (sch, rest)"
  shows "CHR ''#'' \<notin> set sch"
proof (cases "sch = []")
  case True
  then show ?thesis by simp
next
  case False
  with assms have s: "sch = lower (takeWhile (\<lambda>c. c \<noteq> CHR '':'') url)"
    and all: "list_all (\<lambda>c. c \<in> set scheme_chars) (takeWhile (\<lambda>c. c \<noteq> CHR '':'') url)"
    by (auto simp: urlsplit_scheme_def Let_def split: if_splits)
  from all hash_not_scheme_char have "CHR ''#'' \<notin> set (takeWhile (\<lambda>c. c \<noteq> CHR '':'') url)"
    by (auto simp: list_all_iff)
  then show ?thesis unfolding s by (rule hash_notin_lower)
qed

lemma splitnetloc_no_hash:
  assumes "splitnetloc url = (net, rest)"
  shows "CHR ''#'' \<notin> set net"
proof -
  from assms have "net = takeWhile (\<lambda>c. c \<notin> set ''/?#'') (drop 2 url)"
    by (auto simp: splitnetloc_def Let_def)
  then show ?thesis by (auto dest: set_takeWhileD)
qed

lemma set_basename: "set (basename s) \<subseteq> set s"
  unfolding basename_def by (auto dest: set_takeWhileD)

lemma splitparams_subset:
  assumes "splitparams url = (pth, prm)"
  shows "set pth \<subseteq> set url" and "set prm \<subseteq> set url"
proof -
  have a: "x \<in> set url" if "x \<in> set (takeWhile P (basename url))" for P x
    using that set_basename [of url] by (auto dest: set_takeWhileD)
  have b: "x \<in> set url" if "x \<in> set (drop 1 (dropWhile P (basename url)))" for P x
    using that set_basename [of url] by (auto dest!: in_set_dropD set_dropWhileD)
  show "set pth \<subseteq> set url"
  proof (cases "CHR '';'' \<in> set (basename url)")
    case True
    with assms have "pth = take (length url - length (basename url)) url
                        @ takeWhile (\<lambda>c. c \<noteq> CHR '';'') (basename url)"
      by (simp add: splitparams_def Let_def)
    then show ?thesis using a by (auto dest: in_set_takeD)
  next
    case False
    with assms show ?thesis by (simp add: splitparams_def Let_def)
  qed
  show "set prm \<subseteq> set url"
  proof (cases "CHR '';'' \<in> set (basename url)")
    case True
    with assms have "prm = drop 1 (dropWhile (\<lambda>c. c \<noteq> CHR '';'') (basename url))"
      by (simp add: splitparams_def Let_def)
    then show ?thesis using b by blast
  next
    case False
    with assms show ?thesis by (simp add: splitparams_def Let_def)
  qed
qed

lemma split_first_subset:
  assumes "split_first c s = (a, b)"
  shows "c \<notin> set a" and "set a \<subseteq> set s" and "set b \<subseteq> set s"
  using assms
  by (auto simp: split_first_def dest: set_takeWhileD dest!: in_set_dropD set_dropWhileD)

lemma urlparse_no_hash:
  assumes "urlparse url = Inr p"
  shows "CHR ''#'' \<notin> set (scheme p)" and "CHR ''#'' \<notin> set (netloc p)"
    and "CHR ''#'' \<notin> set (path p)" and "CHR ''#'' \<notin> set (params p)"
    and "CHR ''#'' \<notin> set (query p)"
proof -
  obtain sch url1 where s1: "urlsplit_scheme url = (sch, url1)" by fastforce
  obtain net url2 where s2:
    "(if take 2 url1 = ''//'' then splitnetloc url1 else ([], url1)) = (net, url2)" by fastforce
  obtain url3 frag where s3: "split_first (CHR ''#'') url2 = (url3, frag)" by fastforce
  obtain url4 qry where s4: "split_first (CHR ''?'') url3 = (url4, qry)" by fastforce
  obtain pth prm where s5:
    "(if sch \<in> set uses_params \<and> CHR '';'' \<in> set url4 then splitparams url4 else (url4, []))
       = (pth, prm)" by fastforce
  from assms have p: "p = \<lparr>scheme = sch, netloc = net, path = pth, params = prm,
                    query = qry, fragment = frag\<rparr>"
    unfolding urlparse_def s1 s2 s3 s4 s5 Let_def prod.case by (simp split: if_splits)
  have h3: "CHR ''#'' \<notin> set url3" using split_first_subset(1) [OF s3] .
  have h4: "set url4 \<subseteq> set url3" "set qry \<subseteq> set url3"
    using split_first_subset(2,3) [OF s4] by auto
  have h5: "set pth \<subseteq> set url4 \<and> set prm \<subseteq> set url4"
  proof (cases "sch \<in> set uses_params \<and> CHR '';'' \<in> set url4")
    case True
    with s5 have "splitparams url4 = (pth, prm)" by simp
    from splitparams_subset [OF this] show ?thesis by simp
  next
    case False
    with s5 show ?thesis by auto
  qed
  have hn: "CHR ''#'' \<notin> set net"
  proof (cases "take 2 url1 = ''//''")
    case True
    with s2 have "splitnetloc url1 = (net, url2)" by simp
    then show ?thesis by (rule splitnetloc_no_hash)
  next
    case False
    with s2 show ?thesis by auto
  qed
  show "CHR ''#'' \<notin> set (scheme p)" using urlsplit_scheme_no_hash [OF s1] by (simp add: p)
  show "CHR ''#'' \<notin> set (netloc p)" using hn by (simp add: p)
  show "CHR ''#'' \<notin> set (path p)" using h3 h4 h5 by (auto simp: p)
  show "CHR ''#'' \<notin> set (params p)" using h3 h4 h5 by (auto simp: p)
  show "CHR ''#'' \<notin> set (query p)" using h3 h4 by (auto simp: p)
qed

lemma urlunparse_no_fragment:
  assumes "CHR ''#'' \<notin> set (scheme p)" and "CHR ''#'' \<notin> set (netloc p)"
    and "CHR ''#'' \<notin> set (path p)" and "CHR ''#'' \<notin> set (params p)"
    and "CHR ''#'' \<notin> set (query p)"
  shows "CHR ''#'' \<notin> set (urlunparse (p\<lparr>fragment := []\<rparr>))"
  using assms by (auto simp: urlunparse_def Let_def)

lemma urlunparse_query:
  assumes "query p \<noteq> []"
  shows "suffix (''?'' @ query p) (urlunparse (p\<lparr>fragment := []\<rparr>))"
  using assms by (simp add: urlunparse_def Let_def suffix_def)

lemma suffix_basename_path: "suffix (basename s) s"
proof -
  have "rev s = takeWhile (\<lambda>c. c \<noteq> CHR ''/'') (rev s) @ dropWhile (\<lambda>c. c \<noteq> CHR ''/'') (rev s)"
    by simp
  then have "s = rev (dropWhile (\<lambda>c. c \<noteq> CHR ''/'') (rev s)) @ basename s"
    unfolding basename_def by (metis rev_append rev_rev_ident)
  then show ?thesis unfolding suffix_def by blast
qed


section \<open>The body of the extension loop\<close>

lemma parse_basename_eq:
  "parse_basename p expected filename ext =
     (case PROJECT_NAME_AND_VERSION_match (remainder filename ext) of
        None \<Rightarrow> (None, [(DEBUG, ''No match for project/version: %s'', [Str (remainder filename ext)])])
      | Some (name, version) \<Rightarrow>
          if falsy expected \<or> lower (the expected) = lower name
          then (Some \<lparr>di_name = name, di_version = version, di_filename = filename,
                      di_url = urlunparse (p\<lparr>fragment := []\<rparr>),
                      di_python_version =
                        (if falsy (fst (strip_pyver (strip_ext filename ext))) then None
                         else fst (strip_pyver (strip_ext filename ext))),
                      di_md5_digest = MD5_HASH_match (fragment p)\<rparr>, [])
          else (None, []))"
  by (cases "strip_pyver (strip_ext filename ext)")
     (simp add: parse_basename_def remainder_def split: option.splits)

lemma parse_basename_logs:
  "list_all (\<lambda>l. fst l = DEBUG) (snd (parse_basename p expected filename ext))"
  by (simp add: parse_basename_eq split: option.splits prod.splits)

lemma ext_loop_logs:
  "list_all (\<lambda>l. fst l = DEBUG) (snd (ext_loop p expected filename exts))"
  by (induction exts) (simp_all add: parse_basename_logs)

lemma convert_logs:
  assumes "convert_url_to_download_info url expected = Inr (res, logs)"
  shows "list_all (\<lambda>l. fst l = DEBUG) logs"
proof (cases "urlparse url")
  case (Inl e)
  with assms show ?thesis by (simp add: convert_url_to_download_info_def)
next
  case (Inr p)
  show ?thesis
  proof (cases "endswith_any (path p) EXTENSIONS")
    case True
    with assms Inr
    have "logs = snd (ext_loop p expected (basename (path p)) EXTENSIONS)"
      by (simp add: convert_url_to_download_info_def)
    then show ?thesis by (simp add: ext_loop_logs)
  next
    case False
    with assms Inr show ?thesis by (simp add: convert_url_to_download_info_def)
  qed
qed

lemma convert_ext:
  assumes "urlparse url = Inr p" and "ext \<in> set (butlast EXTENSIONS)" and "endswith (path p) ext"
  shows "convert_url_to_download_info url expected
           = Inr (parse_basename p expected (basename (path p)) ext)"
proof -
  from assms(2) have e: "ext \<in> set EXTENSIONS" by (auto simp: EXTENSIONS_def)
  with assms(3) have "endswith (basename (path p)) ext" "endswith_any (path p) EXTENSIONS"
    by (auto intro: endswith_basename endswith_any_EXTENSIONS)
  then show ?thesis
    using assms by (simp add: convert_url_to_download_info_def ext_loop_ext)
qed


section \<open>What the extension loop returns\<close>







section \<open>Claims about the filename parser\<close>

text \<open>
  C9. A URL whose path ends in \<open>.egg\<close> gives no download information, whatever the
  expected project name. A URL whose path ends in one of the other five extensions
  reaches the name and version split of its base name, and for each of those
  extensions there is a URL that gives download information.
\<close>

theorem egg_rejected_other_extensions_parsed:
  "(urlparse url = Inr p \<and> endswith (path p) ''.egg''
      \<longrightarrow> convert_url_to_download_info url expected = Inr (None, []))
   \<and> (urlparse url = Inr p \<and> ext \<in> set (butlast EXTENSIONS) \<and> endswith (path p) ext
      \<longrightarrow> convert_url_to_download_info url expected
            = Inr (parse_basename p expected (basename (path p)) ext))
   \<and> (\<forall>e \<in> set (butlast EXTENSIONS).
        \<exists>r. convert_url_to_download_info (''http://example.org/foo-1.0'' @ e) (Some ''foo'')
               = Inr (Some r, []) \<and> di_name r = ''foo'' \<and> di_version r = ''1.0'')"
proof (intro conjI impI)
  assume a: "urlparse url = Inr p \<and> endswith (path p) ''.egg''"
  then have "endswith (basename (path p)) ''.egg''"
    by (intro endswith_basename) (auto simp: EXTENSIONS_def)
  then show "convert_url_to_download_info url expected = Inr (None, [])"
    using a by (simp add: convert_url_to_download_info_def ext_loop_egg)
next
  assume a: "urlparse url = Inr p \<and> ext \<in> set (butlast EXTENSIONS) \<and> endswith (path p) ext"
  then have e: "ext \<in> set EXTENSIONS" by (auto simp: EXTENSIONS_def)
  with a have "endswith (basename (path p)) ext" "endswith_any (path p) EXTENSIONS"
    by (auto intro: endswith_basename endswith_any_EXTENSIONS)
  then show "convert_url_to_download_info url expected
            = Inr (parse_basename p expected (basename (path p)) ext)"
    using a by (simp add: convert_url_to_download_info_def ext_loop_ext)
next
  have "\<exists>r. convert_url_to_download_info (''http://example.org/foo-1.0'' @ e) (Some ''foo'')
               = Inr (Some r, []) \<and> di_name r = ''foo'' \<and> di_version r = ''1.0''"
    if "e \<in> {''.tar.gz'', ''.tar.bz2'', ''.tar'', ''.zip'', ''.tgz''}" for e
  proof -
    have "convert_url_to_download_info (''http://example.org/foo-1.0'' @ e) (Some ''foo'')
       = Inr (Some \<lparr>di_name = ''foo'', di_version = ''1.0'', di_filename = ''foo-1.0'' @ e,
           di_url = ''http://example.org/foo-1.0'' @ e, di_python_version = None,
           di_md5_digest = None\<rparr>, [])"
      using that by (elim insertE emptyE; hypsubst; code_simp)
    then show ?thesis by simp
  qed
  then show "\<forall>e \<in> set (butlast EXTENSIONS).
        \<exists>r. convert_url_to_download_info (''http://example.org/foo-1.0'' @ e) (Some ''foo'')
               = Inr (Some r, []) \<and> di_name r = ''foo'' \<and> di_version r = ''1.0''"
    by (simp add: EXTENSIONS_def)
qed

theorem egg_rejected_other_extensions_parsed_witness:
  "urlparse ''http://example.org/dist/foo-1.0.egg''
     = Inr \<lparr>scheme = ''http'', netloc = ''example.org'', path = ''/dist/foo-1.0.egg'',
            params = [], query = [], fragment = []\<rparr>
   \<and> endswith ''/dist/foo-1.0.egg'' ''.egg''
   \<and> convert_url_to_download_info ''http://example.org/dist/foo-1.0.egg'' (Some ''foo'')
       = Inr (None, [])"
proof -
  let ?p = "\<lparr>scheme = ''http'', netloc = ''example.org'', path = ''/dist/foo-1.0.egg'',
            params = [], query = [], fragment = []\<rparr>"
  have h1: "urlparse ''http://example.org/dist/foo-1.0.egg'' = Inr ?p" by code_simp
  have h2: "endswith ''/dist/foo-1.0.egg'' ''.egg''" by code_simp
  have h3: "endswith (path ?p) ''.egg''" using h2 by simp
  have "convert_url_to_download_info ''http://example.org/dist/foo-1.0.egg'' (Some ''foo'')
          = Inr (None, [])"
    using egg_rejected_other_extensions_parsed
      [of "''http://example.org/dist/foo-1.0.egg''" ?p "Some ''foo''", THEN conjunct1] h1 h3
    by blast
  with h1 h2 show ?thesis by blast
qed





text \<open>
  C3. For a URL whose path ends in one of the five handled extensions and whose base name
  is \<open>name-version\<close> followed by the extension, where the name is a non-empty text
  over \<open>[a-z0-9_.-]\<close> (either case), the version starts with a digit, is over
  \<open>[0-9_.-]\<close> and has no dash followed by a digit, and the expected project name is
  absent or equal to the name up to case: the parser returns download information with
  exactly that name and version, and a URL that is the parsed URL put together again
  with an empty fragment. That URL has no \<open>#\<close>; it ends with the query of the given
  URL when there is one.
\<close>

theorem name_version_url_parsed:
  assumes "urlparse url = Inr p" and "ext \<in> set (butlast EXTENSIONS)"
    and "basename (path p) = name @ ''-'' @ version @ ext"
    and "name \<noteq> []" and "list_all is_name_char name"
    and "version \<noteq> []" and "list_all is_version_char version" and "is_digit (hd version)"
    and "\<not> has_dash_digit version"
    and "falsy expected \<or> lower (the expected) = lower name"
  shows "\<exists>r. convert_url_to_download_info url expected = Inr (Some r, [])
            \<and> di_name r = name \<and> di_version r = version
            \<and> di_filename r = basename (path p)
            \<and> di_python_version r = None
            \<and> di_md5_digest r = MD5_HASH_match (fragment p)
            \<and> di_url r = urlunparse (p\<lparr>fragment := []\<rparr>)
            \<and> CHR ''#'' \<notin> set (di_url r)
            \<and> (query p \<noteq> [] \<longrightarrow> suffix (''?'' @ query p) (di_url r))"
proof -
  let ?fn = "basename (path p)"
  have "suffix ext ?fn" using assms(3) by (simp add: suffix_def)
  then have "suffix ext (path p)"
    using suffix_basename_path [of "path p"] by (rule suffix_order.trans)
  then have e: "endswith (path p) ext" by (simp add: endswith_def)
  note conv = convert_ext [OF assms(1,2) e, of expected]
  have strip: "strip_ext ?fn ext = name @ CHR ''-'' # version"
    by (simp add: strip_ext_def assms(3))
  have pyv: "strip_pyver (name @ CHR ''-'' # version) = (None, name @ CHR ''-'' # version)"
    using PYTHON_VERSION_search_name_version [OF assms(6,7,8), of name]
    by (simp add: strip_pyver_def)
  have rem: "remainder ?fn ext = name @ CHR ''-'' # version"
    by (simp add: remainder_def strip pyv)
  have m: "PROJECT_NAME_AND_VERSION_match (name @ CHR ''-'' # version) = Some (name, version)"
    using assms(4-9) by (rule match_name_version)
  have nohash: "CHR ''#'' \<notin> set (urlunparse (p\<lparr>fragment := []\<rparr>))"
    using urlparse_no_hash [OF assms(1)] by (rule urlunparse_no_fragment)
  have q: "query p \<noteq> [] \<longrightarrow> suffix (''?'' @ query p) (urlunparse (p\<lparr>fragment := []\<rparr>))"
    using urlunparse_query by blast
  let ?r = "\<lparr>di_name = name, di_version = version, di_filename = ?fn,
              di_url = urlunparse (p\<lparr>fragment := []\<rparr>),
              di_python_version = None,
              di_md5_digest = MD5_HASH_match (fragment p)\<rparr>"
  have "convert_url_to_download_info url expected = Inr (Some ?r, [])"
    using assms(10) by (simp add: conv parse_basename_eq rem m strip pyv falsy_def)
  with nohash q show ?thesis by (intro exI [of _ ?r]) simp
qed

theorem name_version_url_parsed_witness:
  "urlparse ''http://example.org/packages/foo-1.0.tar.gz?download=1#md5=ab''
     = Inr \<lparr>scheme = ''http'', netloc = ''example.org'',
            path = ''/packages/foo-1.0.tar.gz'', params = [], query = ''download=1'',
            fragment = ''md5=ab''\<rparr>
   \<and> basename ''/packages/foo-1.0.tar.gz'' = ''foo'' @ ''-'' @ ''1.0'' @ ''.tar.gz''
   \<and> list_all is_name_char ''foo'' \<and> list_all is_version_char ''1.0''
   \<and> is_digit (hd ''1.0'') \<and> \<not> has_dash_digit ''1.0''
   \<and> lower (the (Some ''Foo'')) = lower ''foo''
   \<and> (\<exists>r. convert_url_to_download_info
               ''http://example.org/packages/foo-1.0.tar.gz?download=1#md5=ab'' (Some ''Foo'')
              = Inr (Some r, [])
            \<and> di_name r = ''foo'' \<and> di_version r = ''1.0''
            \<and> CHR ''#'' \<notin> set (di_url r)
            \<and> suffix ''?download=1'' (di_url r))"
proof -
  let ?u = "''http://example.org/packages/foo-1.0.tar.gz?download=1#md5=ab''"
  let ?p = "\<lparr>scheme = ''http'', netloc = ''example.org'',
            path = ''/packages/foo-1.0.tar.gz'', params = [], query = ''download=1'',
            fragment = ''md5=ab''\<rparr>"
  have h1: "urlparse ?u = Inr ?p" by code_simp
  have h2: "''.tar.gz'' \<in> set (butlast EXTENSIONS)" by code_simp
  have h3: "basename ''/packages/foo-1.0.tar.gz'' = ''foo'' @ ''-'' @ ''1.0'' @ ''.tar.gz''"
    by code_simp
  have h3': "basename (path ?p) = ''foo'' @ ''-'' @ ''1.0'' @ ''.tar.gz''"
    using h3 by simp
  have h4: "''foo'' \<noteq> []" by simp
  have h5: "list_all is_name_char ''foo''" by code_simp
  have h6: "''1.0'' \<noteq> []" by simp
  have h7: "list_all is_version_char ''1.0''" by code_simp
  have h8: "is_digit (hd ''1.0'')" by code_simp
  have h9: "\<not> has_dash_digit ''1.0''" by code_simp
  have h10: "lower (the (Some ''Foo'')) = lower ''foo''" by code_simp
  then have h10': "falsy (Some ''Foo'') \<or> lower (the (Some ''Foo'')) = lower ''foo''" ..
  from name_version_url_parsed [OF h1 h2 h3' h4 h5 h6 h7 h8 h9 h10']
  obtain r where r: "convert_url_to_download_info ?u (Some ''Foo'') = Inr (Some r, [])"
    "di_name r = ''foo''" "di_version r = ''1.0''" "CHR ''#'' \<notin> set (di_url r)"
    "query ?p \<noteq> [] \<longrightarrow> suffix (''?'' @ query ?p) (di_url r)" by blast
  from r(5) have "suffix ''?download=1'' (di_url r)" by simp
  with r(1-4) have "\<exists>r. convert_url_to_download_info ?u (Some ''Foo'') = Inr (Some r, [])
            \<and> di_name r = ''foo'' \<and> di_version r = ''1.0''
            \<and> CHR ''#'' \<notin> set (di_url r)
            \<and> suffix ''?download=1'' (di_url r)" by blast
  with h1 h3 h5 h7 h8 h9 h10 show ?thesis by blast
qed

theorem canonical_url_keeps_query_counterexample:
  "convert_url_to_download_info
     ''http://example.org/packages/foo-1.0.tar.gz?download=1#md5=ab'' (Some ''foo'')
     = Inr (Some \<lparr>di_name = ''foo'', di_version = ''1.0'',
              di_filename = ''foo-1.0.tar.gz'',
              di_url = ''http://example.org/packages/foo-1.0.tar.gz?download=1'',
              di_python_version = None, di_md5_digest = Some ''ab''\<rparr>, [])"
  by code_simp

text \<open>
  C4. For a URL whose path ends in one of the five handled extensions, let the remainder
  be its base name without the extension and the python-version suffix. If the remainder
  does not start with a project name, a dash and a digit, the parser returns none and
  logs one record, at level DEBUG. Otherwise the name is the longest such project name
  (the name group is greedy), the version is the digit after the dash with the longest
  run of \<open>[0-9_.-]\<close> that follows (not always the rest), and the result is
  returned when the expected name is absent or equal up to case. No record of the
  parser is above level DEBUG.
\<close>

theorem name_version_split_greedy:
  assumes "urlparse url = Inr p" and "ext \<in> set (butlast EXTENSIONS)"
    and "endswith (path p) ext"
  shows "((\<forall>n d. \<not> name_version_split (remainder (basename (path p)) ext) n d) \<longrightarrow>
            convert_url_to_download_info url expected
              = Inr (None, [(DEBUG, ''No match for project/version: %s'',
                             [Str (remainder (basename (path p)) ext)])]))
       \<and> (\<forall>n d. name_version_split (remainder (basename (path p)) ext) n d
              \<and> (\<forall>n' d'. name_version_split (remainder (basename (path p)) ext) n' d'
                           \<longrightarrow> length n' \<le> length n) \<longrightarrow>
            (if falsy expected \<or> lower (the expected) = lower n
             then \<exists>r. convert_url_to_download_info url expected = Inr (Some r, [])
                      \<and> di_name r = n
                      \<and> di_version r = d # takeWhile is_version_char
                            (drop (length n + 2) (remainder (basename (path p)) ext))
             else convert_url_to_download_info url expected = Inr (None, [])))
       \<and> (\<forall>res logs. convert_url_to_download_info url expected = Inr (res, logs)
              \<longrightarrow> list_all (\<lambda>l. fst l = DEBUG) logs)"
proof (intro conjI allI impI)
  let ?rem = "remainder (basename (path p)) ext"
  note conv = convert_ext [OF assms, of expected]
  {
    assume "\<forall>n d. \<not> name_version_split ?rem n d"
    then have "PROJECT_NAME_AND_VERSION_match ?rem = None"
      by (simp add: PROJECT_NAME_AND_VERSION_match_None)
    then show "convert_url_to_download_info url expected
              = Inr (None, [(DEBUG, ''No match for project/version: %s'', [Str ?rem])])"
      by (simp add: conv parse_basename_eq)
  }
  {
    fix n d
    assume a: "name_version_split ?rem n d
              \<and> (\<forall>n' d'. name_version_split ?rem n' d' \<longrightarrow> length n' \<le> length n)"
    then have m: "PROJECT_NAME_AND_VERSION_match ?rem
                    = Some (n, d # takeWhile is_version_char (drop (length n + 2) ?rem))"
      unfolding PROJECT_NAME_AND_VERSION_match_Some by blast
    show "if falsy expected \<or> lower (the expected) = lower n
             then \<exists>r. convert_url_to_download_info url expected = Inr (Some r, [])
                      \<and> di_name r = n
                      \<and> di_version r = d # takeWhile is_version_char (drop (length n + 2) ?rem)
             else convert_url_to_download_info url expected = Inr (None, [])"
      by (simp add: conv parse_basename_eq m)
  }
  {
    fix res logs
    assume "convert_url_to_download_info url expected = Inr (res, logs)"
    then show "list_all (\<lambda>l. fst l = DEBUG) logs" by (rule convert_logs)
  }
qed


theorem name_version_split_greedy_witness:
  "urlparse ''http://example.org/foo.tar.gz''
     = Inr \<lparr>scheme = ''http'', netloc = ''example.org'', path = ''/foo.tar.gz'',
            params = [], query = [], fragment = []\<rparr>
   \<and> ''.tar.gz'' \<in> set (butlast EXTENSIONS)
   \<and> endswith ''/foo.tar.gz'' ''.tar.gz''
   \<and> convert_url_to_download_info ''http://example.org/foo.tar.gz'' None
       = Inr (None, [(DEBUG, ''No match for project/version: %s'', [Str ''foo''])])"
proof -
  let ?u = "''http://example.org/foo.tar.gz''"
  let ?p = "\<lparr>scheme = ''http'', netloc = ''example.org'', path = ''/foo.tar.gz'',
            params = [], query = [], fragment = []\<rparr>"
  have h1: "urlparse ?u = Inr ?p" by code_simp
  have h2: "''.tar.gz'' \<in> set (butlast EXTENSIONS)" by code_simp
  have h3: "endswith ''/foo.tar.gz'' ''.tar.gz''" by code_simp
  have h3': "endswith (path ?p) ''.tar.gz''" using h3 by simp
  have rem: "remainder (basename (path ?p)) ''.tar.gz'' = ''foo''" by code_simp
  have "PROJECT_NAME_AND_VERSION_match ''foo'' = None" by code_simp
  then have none: "\<forall>n d. \<not> name_version_split ''foo'' n d"
    by (simp add: PROJECT_NAME_AND_VERSION_match_None)
  have "convert_url_to_download_info ?u None
       = Inr (None, [(DEBUG, ''No match for project/version: %s'', [Str ''foo''])])"
    using name_version_split_greedy [OF h1 h2 h3', of None, THEN conjunct1] none
    unfolding rem by blast
  with h1 h2 h3 show ?thesis by blast
qed

theorem greedy_project_name_counterexample:
  "remainder ''foo-1.0-2.tar.gz'' ''.tar.gz'' = ''foo-1.0-2''
   \<and> name_version_split ''foo-1.0-2'' ''foo'' (CHR ''1'')
   \<and> convert_url_to_download_info ''http://example.org/foo-1.0-2.tar.gz'' None
     = Inr (Some \<lparr>di_name = ''foo-1.0'', di_version = ''2'',
              di_filename = ''foo-1.0-2.tar.gz'',
              di_url = ''http://example.org/foo-1.0-2.tar.gz'', di_python_version = None,
              di_md5_digest = None\<rparr>, [])"
  by (intro conjI; code_simp)

section \<open>The branches of \<open>get_page\<close>\<close>


lemma get_page_hit:
  assumes "urlparse url = Inr p" and "c (request_url e p url) = Some r"
  shows "get_page e c url
           = Inr (r, c, [(DEBUG, ''Returning %s from cache: %s'',
                          [Str (request_url e p url), PageArg r])])"
  using assms by (simp add: get_page_def)

lemma get_page_miss:
  assumes "urlparse url = Inr p" and "c (request_url e p url) = None"
    and "Request e (request_url e p url) [(''Accept-encoding'', ''identity'')] = Inr req"
  shows "get_page e c url =
           (case fetch_try e c (request_url e p url) req of
              (Inr (r, c1), logs) \<Rightarrow> Inr (r, c1(request_url e p url \<mapsto> r), logs)
            | (Inl x, logs) \<Rightarrow>
                Inr (None, c(request_url e p url \<mapsto> None),
                     logs @ fetch_except (request_url e p url) x))"
  using assms by (simp add: get_page_def Let_def)

lemma fetch_try_urlopen_fails:
  assumes "urlopen e req = Inl x"
  shows "fetch_try e c url req = (Inl x, [(DEBUG, ''Fetching %s'', [Str url])])"
  using assms by (simp add: fetch_try_def)

lemma fetch_try_not_html:
  assumes "urlopen e req = Inr resp"
    and "\<not> HTML_CONTENT_TYPE_match (case resp_content_type resp of None \<Rightarrow> [] | Some t \<Rightarrow> t)"
  shows "fst (fetch_try e c url req) = Inr (None, c)"
  using assms by (simp add: fetch_try_def Let_def)

lemma fetch_try_html:
  assumes "urlopen e req = Inr resp"
    and "resp_content_type resp = Some ct" and "HTML_CONTENT_TYPE_match ct"
    and "resp_read resp = Inr data"
  shows "fetch_try e c url req =
     (case decode_body e (resp_content_encoding resp) data of
        Inl x \<Rightarrow> (Inl x, [(DEBUG, ''Fetching %s'', [Str url]), (DEBUG, ''Fetched %s'', [Str url])])
      | Inr data1 \<Rightarrow>
          (case decode e (case CHARSET_search ct of Some g \<Rightarrow> g | None \<Rightarrow> ''utf-8'') data1 of
             Inl x \<Rightarrow> (Inl x, [(DEBUG, ''Fetching %s'', [Str url]), (DEBUG, ''Fetched %s'', [Str url])])
           | Inr text \<Rightarrow>
               (Inr (Some (Page text (resp_geturl resp)),
                     c(resp_geturl resp \<mapsto> Some (Page text (resp_geturl resp)))),
                [(DEBUG, ''Fetching %s'', [Str url]), (DEBUG, ''Fetched %s'', [Str url])])))"
  using assms by (simp add: fetch_try_def Let_def split: sum.splits)

lemma fetch_except_logs:
  "x \<noteq> HTTPError 404 \<Longrightarrow>
     fetch_except url x = [(ERROR, ''Fetch failed: %s: %s'', [Str url, ExnArg x])]"
  "fetch_except url (HTTPError 404) = []"
  by (auto simp: fetch_except_def split: exn.splits)

lemma decode_body_deflate:
  "decode_body e (Some ''deflate'') data = zlib_decompress e data"
  by (simp add: decode_body_def falsy_def decoders_def)

lemma decode_body_gzip:
  "decode_body e (Some ''gzip'') data = Inl (NameError ''d'')"
  by (simp add: decode_body_def falsy_def decoders_def)

lemma decode_body_unknown:
  assumes "enc \<noteq> []" and "enc \<noteq> ''deflate''" and "enc \<noteq> ''gzip''"
  shows "decode_body e (Some enc) data = Inl (KeyError enc)"
  using assms by (simp add: decode_body_def falsy_def decoders_def)

lemma fetch_try_logs:
  "list_all (\<lambda>l. fst l = DEBUG) (snd (fetch_try e c url req))"
  by (simp add: fetch_try_def Let_def split: sum.splits)



section \<open>Claims about the fetch layer\<close>

text \<open>
  C2. Take a URL that parses, is not in the cache and for which the request object can
  be built, and a response with an HTML content type, a body that can be read and a
  non-empty content encoding. If the encoding is \<open>deflate\<close>, the body is decompressed,
  the decompressed bytes are decoded with the charset of the content type, and the page
  built from that text is returned and cached under the final and the requested URL.
  If the encoding is neither \<open>deflate\<close> nor \<open>gzip\<close>, looking up its decoder raises
  \<open>KeyError\<close> inside \<open>get_page\<close>, whose own handler logs it: none is returned and
  cached for the URL, and no exception leaves \<open>get_page\<close>.
\<close>

theorem content_encoding_in_get_page:
  assumes "urlparse url = Inr p" and "c (request_url e p url) = None"
    and "Request e (request_url e p url) [(''Accept-encoding'', ''identity'')] = Inr req"
    and "urlopen e req = Inr resp"
    and "resp_content_type resp = Some ct" and "HTML_CONTENT_TYPE_match ct"
    and "resp_read resp = Inr data"
    and "resp_content_encoding resp = Some enc" and "enc \<noteq> []"
  shows "(\<forall>data1 decoded.
            enc = ''deflate'' \<and> zlib_decompress e data = Inr data1
            \<and> decode e (case CHARSET_search ct of Some g \<Rightarrow> g | None \<Rightarrow> ''utf-8'') data1
                  = Inr decoded
            \<longrightarrow> get_page e c url
                  = Inr (Some (Page decoded (resp_geturl resp)),
                         c(resp_geturl resp \<mapsto> Some (Page decoded (resp_geturl resp)),
                           request_url e p url \<mapsto> Some (Page decoded (resp_geturl resp))),
                         [(DEBUG, ''Fetching %s'', [Str (request_url e p url)]),
                          (DEBUG, ''Fetched %s'', [Str (request_url e p url)])]))
       \<and> (enc \<noteq> ''deflate'' \<and> enc \<noteq> ''gzip''
            \<longrightarrow> get_page e c url
                  = Inr (None, c(request_url e p url \<mapsto> None),
                         [(DEBUG, ''Fetching %s'', [Str (request_url e p url)]),
                          (DEBUG, ''Fetched %s'', [Str (request_url e p url)]),
                          (ERROR, ''Fetch failed: %s: %s'',
                           [Str (request_url e p url), ExnArg (KeyError enc)])]))"
proof (intro conjI allI impI)
  note miss = get_page_miss [where c = c and e = e, OF assms(1,2,3)]
  note html = fetch_try_html [where c = c and url = "request_url e p url", OF assms(4,5,6,7)]
  {
    fix data1 decoded
    assume a: "enc = ''deflate'' \<and> zlib_decompress e data = Inr data1
            \<and> decode e (case CHARSET_search ct of Some g \<Rightarrow> g | None \<Rightarrow> ''utf-8'') data1
                  = Inr decoded"
    then have "decode_body e (resp_content_encoding resp) data = Inr data1"
      using assms(8) by (simp add: decode_body_deflate)
    with a show "get_page e c url
                  = Inr (Some (Page decoded (resp_geturl resp)),
                         c(resp_geturl resp \<mapsto> Some (Page decoded (resp_geturl resp)),
                           request_url e p url \<mapsto> Some (Page decoded (resp_geturl resp))),
                         [(DEBUG, ''Fetching %s'', [Str (request_url e p url)]),
                          (DEBUG, ''Fetched %s'', [Str (request_url e p url)])])"
      by (simp add: miss html)
  }
  {
    assume "enc \<noteq> ''deflate'' \<and> enc \<noteq> ''gzip''"
    then have "decode_body e (resp_content_encoding resp) data = Inl (KeyError enc)"
      using assms(8,9) by (simp add: decode_body_unknown)
    then show "get_page e c url
                  = Inr (None, c(request_url e p url \<mapsto> None),
                         [(DEBUG, ''Fetching %s'', [Str (request_url e p url)]),
                          (DEBUG, ''Fetched %s'', [Str (request_url e p url)]),
                          (ERROR, ''Fetch failed: %s: %s'',
                           [Str (request_url e p url), ExnArg (KeyError enc)])])"
      by (simp add: miss html fetch_except_logs)
  }
qed


theorem content_encoding_in_get_page_witness:
  "urlparse ''http://example.org/simple/deflate/''
     = Inr \<lparr>scheme = ''http'', netloc = ''example.org'', path = ''/simple/deflate/'',
            params = [], query = [], fragment = []\<rparr>
   \<and> urlopen example_env
         \<lparr>req_url = ''http://example.org/simple/deflate/'',
          req_headers = [(''Accept-encoding'', ''identity'')]\<rparr>
       = Inr (example_response ''http://example.org/simple/deflate/'' (Some ''deflate'') ''abc'')
   \<and> HTML_CONTENT_TYPE_match ''text/html; charset=latin-1''
   \<and> zlib_decompress example_env ''abc'' = Inr ''inflated abc''
   \<and> decode example_env ''latin-1'' ''inflated abc'' = Inr ''latin-1 inflated abc''
   \<and> fst (projr (get_page example_env Map.empty ''http://example.org/simple/deflate/''))
       = Some (Page ''latin-1 inflated abc'' ''http://example.org/simple/deflate/'')"
proof -
  let ?u = "''http://example.org/simple/deflate/''"
  let ?p = "\<lparr>scheme = ''http'', netloc = ''example.org'', path = ''/simple/deflate/'',
            params = [], query = [], fragment = []\<rparr>"
  let ?req = "\<lparr>req_url = ?u, req_headers = [(''Accept-encoding'', ''identity'')]\<rparr>"
  let ?resp = "example_response ?u (Some ''deflate'') ''abc''"
  let ?ct = "''text/html; charset=latin-1''"
  have key: "request_url example_env ?p ?u = ?u" by code_simp
  have h1: "urlparse ?u = Inr ?p" by code_simp
  have h2: "Map.empty (request_url example_env ?p ?u) = None" by simp
  have h3: "Request example_env (request_url example_env ?p ?u)
              [(''Accept-encoding'', ''identity'')] = Inr ?req"
    unfolding key by code_simp
  have h4: "urlopen example_env ?req = Inr ?resp" by code_simp
  have h5: "resp_content_type ?resp = Some ?ct" by code_simp
  have h6: "HTML_CONTENT_TYPE_match ?ct" by code_simp
  have h7: "resp_read ?resp = Inr ''abc''" by code_simp
  have h8: "resp_content_encoding ?resp = Some ''deflate''" by code_simp
  have h9: "''deflate'' \<noteq> []" by simp
  have z: "zlib_decompress example_env ''abc'' = Inr ''inflated abc''" by code_simp
  have cs: "(case CHARSET_search ?ct of Some g \<Rightarrow> g | None \<Rightarrow> ''utf-8'') = ''latin-1''"
    by code_simp
  have d: "decode example_env ''latin-1'' ''inflated abc'' = Inr ''latin-1 inflated abc''"
    by code_simp
  have geturl: "resp_geturl ?resp = ?u" by code_simp
  have "get_page example_env Map.empty ?u
          = Inr (Some (Page ''latin-1 inflated abc'' (resp_geturl ?resp)),
                 Map.empty(resp_geturl ?resp \<mapsto> Some (Page ''latin-1 inflated abc'' (resp_geturl ?resp)),
                           request_url example_env ?p ?u
                             \<mapsto> Some (Page ''latin-1 inflated abc'' (resp_geturl ?resp))),
                 [(DEBUG, ''Fetching %s'', [Str (request_url example_env ?p ?u)]),
                  (DEBUG, ''Fetched %s'', [Str (request_url example_env ?p ?u)])])"
    using content_encoding_in_get_page [OF h1 h2 h3 h4 h5 h6 h7 h8 h9, THEN conjunct1]
      z d cs by simp
  then have "fst (projr (get_page example_env Map.empty ?u))
       = Some (Page ''latin-1 inflated abc'' ?u)"
    by (simp add: geturl)
  with h1 h4 h6 z d show ?thesis by blast
qed

theorem unknown_encoding_no_error_counterexample:
  "(case get_page example_env Map.empty ''http://example.org/simple/br/'' of
      Inl x \<Rightarrow> False
    | Inr (r, c, logs) \<Rightarrow>
        r = None \<and> c ''http://example.org/simple/br/'' = Some None
        \<and> logs = [(DEBUG, ''Fetching %s'', [Str ''http://example.org/simple/br/'']),
                   (DEBUG, ''Fetched %s'', [Str ''http://example.org/simple/br/'']),
                   (ERROR, ''Fetch failed: %s: %s'',
                    [Str ''http://example.org/simple/br/'', ExnArg (KeyError ''br'')])])
   \<and> (case get_page example_env Map.empty ''http://example.org/simple/gzip/'' of
        Inl x \<Rightarrow> False
      | Inr (r, c, logs) \<Rightarrow>
          r = None \<and> c ''http://example.org/simple/gzip/'' = Some None
          \<and> logs = [(DEBUG, ''Fetching %s'', [Str ''http://example.org/simple/gzip/'']),
                     (DEBUG, ''Fetched %s'', [Str ''http://example.org/simple/gzip/'']),
                     (ERROR, ''Fetch failed: %s: %s'',
                      [Str ''http://example.org/simple/gzip/'', ExnArg (NameError ''d'')])])"
  by (intro conjI; code_simp)

text \<open>
  C5. For a URL that parses and for which the request object can be built (both happen
  before the \<open>try\<close> block), \<open>get_page\<close> returns a page or none and leaves that result
  in the cache under the URL it looked up and fetched: the given URL, or the
  \<open>index.html\<close> URL of a directory for a \<open>file\<close> URL that names one. On a miss, a 404
  from the transport gives none and only the debug record of the fetch; every other
  exception of the \<open>try\<close> block gives none and an error record; a response that is not
  HTML gives none. A second call for the same URL returns the same result from the cache,
  without a fetch.
\<close>

theorem get_page_caches_every_outcome:
  assumes "urlparse url = Inr p"
    and "Request e (request_url e p url) [(''Accept-encoding'', ''identity'')] = Inr req"
  shows "\<exists>r c' logs.
           get_page e c url = Inr (r, c', logs)
           \<and> c' (request_url e p url) = Some r
           \<and> (c (request_url e p url) = None \<and> urlopen e req = Inl (HTTPError 404)
                \<longrightarrow> r = None \<and> logs = [(DEBUG, ''Fetching %s'', [Str (request_url e p url)])])
           \<and> (\<forall>x. c (request_url e p url) = None
                    \<and> fst (fetch_try e c (request_url e p url) req) = Inl x
                    \<and> x \<noteq> HTTPError 404
                \<longrightarrow> r = None
                    \<and> (ERROR, ''Fetch failed: %s: %s'', [Str (request_url e p url), ExnArg x])
                          \<in> set logs)
           \<and> (\<forall>resp. c (request_url e p url) = None \<and> urlopen e req = Inr resp
                    \<and> \<not> HTML_CONTENT_TYPE_match
                           (case resp_content_type resp of None \<Rightarrow> [] | Some t \<Rightarrow> t)
                \<longrightarrow> r = None)
           \<and> get_page e c' url
               = Inr (r, c', [(DEBUG, ''Returning %s from cache: %s'',
                               [Str (request_url e p url), PageArg r])])"
proof (cases "c (request_url e p url)")
  case (Some r)
  from get_page_hit [where c = c and e = e, OF assms(1) Some] Some show ?thesis by simp
next
  case None
  let ?key = "request_url e p url"
  note miss = get_page_miss [where c = c and e = e, OF assms(1) None assms(2)]
  obtain out logs where ft: "fetch_try e c ?key req = (out, logs)" by fastforce
  show ?thesis
  proof (cases out)
    case (Inl x)
    let ?c' = "c(?key \<mapsto> None)"
    have gp: "get_page e c url = Inr (None, ?c', logs @ fetch_except ?key x)"
      by (simp add: miss ft Inl)
    have hit: "get_page e ?c' url
               = Inr (None, ?c', [(DEBUG, ''Returning %s from cache: %s'',
                                    [Str ?key, PageArg None])])"
      by (rule get_page_hit [where e = e, OF assms(1)]) simp
    have l404: "logs = [(DEBUG, ''Fetching %s'', [Str ?key])] \<and> x = HTTPError 404"
      if "urlopen e req = Inl (HTTPError 404)"
      using fetch_try_urlopen_fails [where c = c and url = ?key, OF that] ft Inl by simp
    have nothtml: False
      if "urlopen e req = Inr resp"
        "\<not> HTML_CONTENT_TYPE_match (case resp_content_type resp of None \<Rightarrow> [] | Some t \<Rightarrow> t)"
      for resp
      using fetch_try_not_html [where c = c and url = ?key, OF that] ft Inl by simp
    show ?thesis
      unfolding gp using hit l404 nothtml ft Inl
      by (auto simp: fetch_except_logs)
  next
    case (Inr rc)
    obtain r c1 where rc: "rc = (r, c1)" by fastforce
    let ?c' = "c1(?key \<mapsto> r)"
    have gp: "get_page e c url = Inr (r, ?c', logs)"
      by (simp add: miss ft Inr rc)
    have hit: "get_page e ?c' url
               = Inr (r, ?c', [(DEBUG, ''Returning %s from cache: %s'', [Str ?key, PageArg r])])"
      by (rule get_page_hit [where e = e, OF assms(1)]) simp
    have l404: False if "urlopen e req = Inl (HTTPError 404)"
      using fetch_try_urlopen_fails [where c = c and url = ?key, OF that] ft Inr by simp
    have nothtml: "r = None"
      if "urlopen e req = Inr resp"
        "\<not> HTML_CONTENT_TYPE_match (case resp_content_type resp of None \<Rightarrow> [] | Some t \<Rightarrow> t)"
      for resp
      using fetch_try_not_html [where c = c and url = ?key, OF that] ft Inr rc by simp
    show ?thesis
      unfolding gp using hit l404 nothtml ft Inr
      by auto
  qed
qed

theorem get_page_caches_every_outcome_witness:
  "urlparse ''http://example.org/simple/broken/''
     = Inr \<lparr>scheme = ''http'', netloc = ''example.org'', path = ''/simple/broken/'',
            params = [], query = [], fragment = []\<rparr>
   \<and> Request example_env ''http://example.org/simple/broken/''
         [(''Accept-encoding'', ''identity'')]
       = Inr \<lparr>req_url = ''http://example.org/simple/broken/'',
              req_headers = [(''Accept-encoding'', ''identity'')]\<rparr>
   \<and> (\<exists>r c' logs.
          get_page example_env Map.empty ''http://example.org/simple/broken/''
            = Inr (r, c', logs)
          \<and> c' ''http://example.org/simple/broken/'' = Some r
          \<and> r = None
          \<and> (ERROR, ''Fetch failed: %s: %s'',
               [Str ''http://example.org/simple/broken/'', ExnArg (HTTPError 500)]) \<in> set logs
          \<and> get_page example_env c' ''http://example.org/simple/broken/''
              = Inr (r, c', [(DEBUG, ''Returning %s from cache: %s'',
                              [Str ''http://example.org/simple/broken/'', PageArg r])]))"
proof -
  let ?u = "''http://example.org/simple/broken/''"
  let ?p = "\<lparr>scheme = ''http'', netloc = ''example.org'', path = ''/simple/broken/'',
            params = [], query = [], fragment = []\<rparr>"
  let ?req = "\<lparr>req_url = ?u, req_headers = [(''Accept-encoding'', ''identity'')]\<rparr>"
  have key: "request_url example_env ?p ?u = ?u" by code_simp
  have h1: "urlparse ?u = Inr ?p" by code_simp
  have h2': "Request example_env ?u [(''Accept-encoding'', ''identity'')] = Inr ?req"
    by code_simp
  then have h2: "Request example_env (request_url example_env ?p ?u)
              [(''Accept-encoding'', ''identity'')] = Inr ?req"
    unfolding key .
  have miss: "Map.empty (request_url example_env ?p ?u) = None" by simp
  have "urlopen example_env ?req = Inl (HTTPError 500)" by code_simp
  then have ft: "fst (fetch_try example_env Map.empty (request_url example_env ?p ?u) ?req)
              = Inl (HTTPError 500)"
    by (simp add: fetch_try_urlopen_fails)
  have ne: "HTTPError 500 \<noteq> HTTPError 404" by simp
  from get_page_caches_every_outcome [OF h1 h2, of Map.empty]
  obtain r c' logs where g: "get_page example_env Map.empty ?u = Inr (r, c', logs)"
    and k: "c' (request_url example_env ?p ?u) = Some r"
    and f: "\<forall>x. Map.empty (request_url example_env ?p ?u) = None
              \<and> fst (fetch_try example_env Map.empty (request_url example_env ?p ?u) ?req) = Inl x
              \<and> x \<noteq> HTTPError 404
            \<longrightarrow> r = None
                \<and> (ERROR, ''Fetch failed: %s: %s'',
                     [Str (request_url example_env ?p ?u), ExnArg x]) \<in> set logs"
    and again: "get_page example_env c' ?u
               = Inr (r, c', [(DEBUG, ''Returning %s from cache: %s'',
                               [Str (request_url example_env ?p ?u), PageArg r])])"
    by blast
  from f miss ft ne have "r = None
                \<and> (ERROR, ''Fetch failed: %s: %s'',
                     [Str (request_url example_env ?p ?u), ExnArg (HTTPError 500)]) \<in> set logs"
    by blast
  with g k again have "\<exists>r c' logs.
          get_page example_env Map.empty ?u = Inr (r, c', logs)
          \<and> c' ?u = Some r \<and> r = None
          \<and> (ERROR, ''Fetch failed: %s: %s'', [Str ?u, ExnArg (HTTPError 500)]) \<in> set logs
          \<and> get_page example_env c' ?u
              = Inr (r, c', [(DEBUG, ''Returning %s from cache: %s'', [Str ?u, PageArg r])])"
    unfolding key by blast
  with h1 h2' show ?thesis by blast
qed

theorem file_directory_cache_key_counterexample:
  "(case get_page example_env Map.empty ''file:///srv/index'' of
      Inl x \<Rightarrow> False
    | Inr (r, c, logs) \<Rightarrow>
        r = None \<and> c ''file:///srv/index'' = None
        \<and> c ''file:///srv/index/index.html'' = Some None
        \<and> logs = [(DEBUG, ''Fetching %s'', [Str ''file:///srv/index/index.html'']),
                   (ERROR, ''Fetch failed: %s: %s'',
                    [Str ''file:///srv/index/index.html'', ExnArg (URLError ''unreachable'')])])
   \<and> (case get_page example_env Map.empty ''http://[example.org/simple/foo/'' of
        Inl x \<Rightarrow> x = ValueError ''Invalid IPv6 URL''
      | Inr out \<Rightarrow> False)"
  by (intro conjI; code_simp)

section \<open>Merging and sorting\<close>

lemma map_of_dict_update:
  assumes "distinct (map fst r)"
  shows "map_of (dict_update d r) = map_of d ++ map_of r"
  using assms
proof (induction r arbitrary: d)
  case Nil
  then show ?case by (simp add: dict_update_def)
next
  case (Cons kv r)
  obtain k v where kv: "kv = (k, v)" by fastforce
  from Cons.prems kv have k: "k \<notin> fst ` set r" and dr: "distinct (map fst r)" by auto
  have "dict_update d (kv # r) = dict_update (AList.update k v d) r"
    by (simp add: dict_update_def kv)
  moreover have "map_of (AList.update k v d) = (map_of d)(k \<mapsto> v)"
    by (rule update_conv')
  ultimately have "map_of (dict_update d (kv # r)) = (map_of d)(k \<mapsto> v) ++ map_of r"
    using Cons.IH [OF dr, of "AList.update k v d"] by (simp only:)
  also have "\<dots> = map_of d ++ map_of (kv # r)"
  proof (rule ext)
    fix x
    from k have "map_of r k = None" by (simp add: map_of_eq_None_iff)
    then show "((map_of d)(k \<mapsto> v) ++ map_of r) x = (map_of d ++ map_of (kv # r)) x"
      by (auto simp: map_add_def kv split: option.splits)
  qed
  finally show ?case .
qed

lemma aggregate_loop_first_hit:
  assumes "\<forall>l' \<in> set pre. l' name = Inr []" and "l name = Inr r" and "r \<noteq> []"
  shows "aggregate_loop False name (pre @ l # post) res = (Inr r, Suc (length pre))"
  using assms by (induction pre) auto

lemma aggregate_loop_all_empty:
  assumes "\<forall>l \<in> set ls. l name = Inr []"
  shows "aggregate_loop merge name ls res = (Inr res, length ls)"
  using assms by (induction ls) auto

lemma aggregate_loop_merge:
  assumes "\<forall>l \<in> set ls. \<exists>r. l name = Inr r \<and> distinct (map fst r)"
  shows "\<exists>out. aggregate_loop True name ls res = (Inr out, length ls)
           \<and> map_of out = foldl (++) (map_of res) (map (\<lambda>l. map_of (projr (l name))) ls)"
  using assms
proof (induction ls arbitrary: res)
  case Nil
  then show ?case by simp
next
  case (Cons l ls)
  then obtain r where r: "l name = Inr r" "distinct (map fst r)" by auto
  from Cons.prems have rest: "\<forall>l \<in> set ls. \<exists>r. l name = Inr r \<and> distinct (map fst r)" by simp
  show ?case
  proof (cases "r = []")
    case True
    from Cons.IH [OF rest, of res] obtain out where
      "aggregate_loop True name ls res = (Inr out, length ls)"
      "map_of out = foldl (++) (map_of res) (map (\<lambda>l. map_of (projr (l name))) ls)" by blast
    with r True show ?thesis by simp
  next
    case False
    from Cons.IH [OF rest, of "dict_update res r"] obtain out where
      "aggregate_loop True name ls (dict_update res r) = (Inr out, length ls)"
      "map_of out = foldl (++) (map_of (dict_update res r))
                      (map (\<lambda>l. map_of (projr (l name))) ls)" by blast
    with r False show ?thesis by (simp add: map_of_dict_update)
  qed
qed

lemma sorted_map_last_max:
  assumes "sorted (map f ys)" and "y \<in> set ys"
  shows "f y \<le> f (last ys)"
  using assms
proof (induction ys)
  case Nil
  then show ?case by simp
next
  case (Cons a ys)
  show ?case
  proof (cases "ys = []")
    case True
    with Cons.prems show ?thesis by simp
  next
    case False
    then have l: "last (a # ys) = last ys" by simp
    from Cons.prems(1) have s: "sorted (map f ys)" and a: "\<forall>z \<in> set ys. f a \<le> f z" by auto
    from False have "last ys \<in> set ys" by simp
    with a have "f a \<le> f (last ys)" by blast
    moreover have "f y \<le> f (last ys)" if "y \<in> set ys" using Cons.IH [OF s that] .
    ultimately show ?thesis using Cons.prems(2) l by auto
  qed
qed



section \<open>Claims about \<open>AggregatingLocator\<close> and \<open>locate\<close>\<close>

text \<open>
  C8. Without \<open>merge\<close>, when the locators before some locator return empty results and
  that locator returns a result that is not empty, the aggregating locator returns that
  result as it is and has asked only the locators up to that one. With \<open>merge\<close> and
  locators that all return dictionaries, it asks every locator and returns a dictionary
  that holds, for each version, the entry of the last locator that has one.
\<close>

theorem aggregating_locator_modes:
  "(locators = pre @ l # post \<and> (\<forall>l' \<in> set pre. l' name = Inr []) \<and> l name = Inr r \<and> r \<noteq> []
      \<longrightarrow> aggregating_get_project False locators name = (Inr r, Suc (length pre)))
   \<and> ((\<forall>l \<in> set locators. \<exists>r. l name = Inr r \<and> distinct (map fst r))
      \<longrightarrow> (\<exists>out. aggregating_get_project True locators name = (Inr out, length locators)
                \<and> map_of out
                    = foldl (++) Map.empty (map (\<lambda>l. map_of (projr (l name))) locators)))"
proof (intro conjI impI)
  assume "locators = pre @ l # post \<and> (\<forall>l' \<in> set pre. l' name = Inr []) \<and> l name = Inr r
            \<and> r \<noteq> []"
  then show "aggregating_get_project False locators name = (Inr r, Suc (length pre))"
    by (simp add: aggregating_get_project_def aggregate_loop_first_hit)
next
  assume "\<forall>l \<in> set locators. \<exists>r. l name = Inr r \<and> distinct (map fst r)"
  from aggregate_loop_merge [OF this, of "[]"]
  show "\<exists>out. aggregating_get_project True locators name = (Inr out, length locators)
                \<and> map_of out
                    = foldl (++) Map.empty (map (\<lambda>l. map_of (projr (l name))) locators)"
    by (simp add: aggregating_get_project_def)
qed


theorem aggregating_locator_modes_witness:
  "example_locator_a ''foo'' = Inr []
   \<and> example_locator_b ''foo'' = Inr [(''1.0'', ''b-1.0'')]
   \<and> aggregating_get_project False
         [example_locator_a, example_locator_b, example_locator_c] ''foo''
       = (Inr [(''1.0'', ''b-1.0'')], 2)
   \<and> (\<exists>out. aggregating_get_project True
                 [example_locator_a, example_locator_b, example_locator_c] ''foo''
               = (Inr out, 3)
             \<and> map_of out ''1.0'' = Some ''c-1.0'' \<and> map_of out ''2.0'' = Some ''c-2.0'')"
proof -
  let ?ls = "[example_locator_a, example_locator_b, example_locator_c]"
  have a: "example_locator_a ''foo'' = Inr []" by (simp add: example_locator_a_def)
  have b: "example_locator_b ''foo'' = Inr [(''1.0'', ''b-1.0'')]"
    by (simp add: example_locator_b_def)
  have c: "example_locator_c ''foo'' = Inr [(''1.0'', ''c-1.0''), (''2.0'', ''c-2.0'')]"
    by (simp add: example_locator_c_def)
  note inst = aggregating_locator_modes
    [of ?ls "[example_locator_a]" example_locator_b "[example_locator_c]" "''foo''"
        "[(''1.0'', ''b-1.0'')]"]
  have first: "aggregating_get_project False ?ls ''foo'' = (Inr [(''1.0'', ''b-1.0'')], 2)"
    using inst [THEN conjunct1] a b by simp
  have "\<forall>l \<in> set ?ls. \<exists>r. l ''foo'' = Inr r \<and> distinct (map fst r)"
    using a b c by simp
  with inst [THEN conjunct2] obtain out where
    out: "aggregating_get_project True ?ls ''foo'' = (Inr out, length ?ls)"
    and m: "map_of out = foldl (++) Map.empty (map (\<lambda>l. map_of (projr (l ''foo''))) ?ls)"
    by blast
  from m a b c have "map_of out ''1.0'' = Some ''c-1.0''" "map_of out ''2.0'' = Some ''c-2.0''"
    by simp_all
  with out have "\<exists>out. aggregating_get_project True ?ls ''foo'' = (Inr out, 3)
             \<and> map_of out ''1.0'' = Some ''c-1.0'' \<and> map_of out ''2.0'' = Some ''c-2.0''"
    by auto
  with a b first show ?thesis by blast
qed

text \<open>
  C7. For a predicate that parses and a locator that returns the versions of its
  project, \<open>locate\<close> returns normally: a version on which \<open>match\<close> raises counts as
  one that does not match. The result is none exactly when no version of the project
  matches (so also when there is none), and otherwise it is the record of a matching
  version whose legacy key is greatest among the matching versions.
\<close>

theorem locate_returns_maximal_match:
  assumes "VersionPredicate predicate = Inr vp"
    and "default_locator (vp_name vp) = Inr versions"
  shows "\<exists>res. locate VersionPredicate default_locator legacy_version_key predicate = Inr res
           \<and> (res = None \<longleftrightarrow> (\<forall>k \<in> set (map fst versions). vp_match vp k \<noteq> Inr True))
           \<and> (\<forall>d. res = Some d \<longrightarrow>
                 (\<exists>k \<in> set (map fst versions).
                     vp_match vp k = Inr True \<and> map_of versions k = Some d
                     \<and> (\<forall>k' \<in> set (map fst versions).
                            vp_match vp k' = Inr True
                            \<longrightarrow> legacy_version_key k' \<le> legacy_version_key k)))"
proof -
  define slist where "slist = filter (\<lambda>k. vp_match vp k = Inr True) (map fst versions)"
  define slist1 where
    "slist1 = (if length slist > 1 then sort_key legacy_version_key slist else slist)"
  define res where
    "res = (if versions \<noteq> [] then (if slist1 \<noteq> [] then map_of versions (last slist1) else None)
            else None)"
  have loc: "locate VersionPredicate default_locator legacy_version_key predicate = Inr res"
    using assms by (simp add: locate_def Let_def res_def slist1_def slist_def)
  have set1: "set slist1 = set slist" by (simp add: slist1_def)
  have set_slist: "set slist = {k \<in> set (map fst versions). vp_match vp k = Inr True}"
    by (auto simp: slist_def)
  have empty: "slist1 = [] \<longleftrightarrow> (\<forall>k \<in> set (map fst versions). vp_match vp k \<noteq> Inr True)"
  proof -
    have "slist1 = [] \<longleftrightarrow> set slist = {}" using set1 by (metis set_empty)
    then show ?thesis unfolding set_slist by blast
  qed
  have max: "legacy_version_key k' \<le> legacy_version_key (last slist1)"
    if "k' \<in> set slist1" for k'
  proof (cases "length slist > 1")
    case True
    then have "sorted (map legacy_version_key slist1)" by (simp add: slist1_def)
    then show ?thesis using that by (rule sorted_map_last_max)
  next
    case False
    then have "slist1 = slist" by (simp add: slist1_def)
    with False that obtain k where "slist1 = [k]" by (cases slist1) auto
    with that show ?thesis by simp
  qed
  have some: "\<exists>d. map_of versions (last slist1) = Some d" if "slist1 \<noteq> []"
  proof -
    from that have "last slist1 \<in> set slist1" by simp
    with set1 set_slist have "last slist1 \<in> fst ` set versions" by auto
    then show ?thesis by (metis map_of_eq_None_iff not_Some_eq)
  qed
  have none_iff: "res = None \<longleftrightarrow> (\<forall>k \<in> set (map fst versions). vp_match vp k \<noteq> Inr True)"
  proof (cases "slist1 = []")
    case True
    then show ?thesis using empty by (simp add: res_def)
  next
    case False
    with some obtain d where "map_of versions (last slist1) = Some d" by blast
    moreover from False set1 set_slist have "versions \<noteq> []" by auto
    ultimately show ?thesis using False empty by (simp add: res_def)
  qed
  have some_max: "\<exists>k \<in> set (map fst versions).
                     vp_match vp k = Inr True \<and> map_of versions k = Some d
                     \<and> (\<forall>k' \<in> set (map fst versions).
                            vp_match vp k' = Inr True
                            \<longrightarrow> legacy_version_key k' \<le> legacy_version_key k)"
    if "res = Some d" for d
  proof -
    from that have ne: "slist1 \<noteq> []" and d: "map_of versions (last slist1) = Some d"
      by (auto simp: res_def split: if_splits)
    from ne have "last slist1 \<in> set slist1" by simp
    with set1 set_slist have in_keys: "last slist1 \<in> set (map fst versions)"
      and m: "vp_match vp (last slist1) = Inr True" by auto
    have "\<forall>k' \<in> set (map fst versions). vp_match vp k' = Inr True
            \<longrightarrow> legacy_version_key k' \<le> legacy_version_key (last slist1)"
      using max set1 set_slist by auto
    with in_keys m d show ?thesis by blast
  qed
  from loc none_iff some_max show ?thesis by blast
qed

theorem locate_returns_maximal_match_witness:
  "example_VersionPredicate ''foo (>=1.0, <3.0)'' = Inr example_vp
   \<and> example_versions (vp_name example_vp)
       = Inr [(''1.0'', ''foo-1.0''), (''3.0'', ''foo-3.0''), (''bogus'', ''foo-bogus''),
              (''2.0'', ''foo-2.0'')]
   \<and> vp_match example_vp ''bogus'' = Inl (ValueError ''invalid version'')
   \<and> locate example_VersionPredicate example_versions example_key ''foo (>=1.0, <3.0)''
       = Inr (Some ''foo-2.0'')"
proof -
  let ?vs = "[(''1.0'', ''foo-1.0''), (''3.0'', ''foo-3.0''), (''bogus'', ''foo-bogus''),
              (''2.0'', ''foo-2.0'')]"
  have h1: "example_VersionPredicate ''foo (>=1.0, <3.0)'' = Inr example_vp"
    by (simp add: example_VersionPredicate_def)
  have h2: "example_versions (vp_name example_vp) = Inr ?vs"
    by (simp add: example_versions_def)
  have bogus: "vp_match example_vp ''bogus'' = Inl (ValueError ''invalid version'')"
    by (simp add: example_vp_def example_match_def)
  have m2: "vp_match example_vp ''2.0'' = Inr True"
    by (simp add: example_vp_def example_match_def)
  from locate_returns_maximal_match [where VersionPredicate = example_VersionPredicate
      and default_locator = example_versions and legacy_version_key = example_key, OF h1 h2]
  obtain res where loc: "locate example_VersionPredicate example_versions example_key
                           ''foo (>=1.0, <3.0)'' = Inr res"
    and none: "res = None \<longleftrightarrow> (\<forall>k \<in> set (map fst ?vs). vp_match example_vp k \<noteq> Inr True)"
    and some: "\<forall>d. res = Some d \<longrightarrow>
                 (\<exists>k \<in> set (map fst ?vs).
                     vp_match example_vp k = Inr True \<and> map_of ?vs k = Some d
                     \<and> (\<forall>k' \<in> set (map fst ?vs).
                            vp_match example_vp k' = Inr True
                            \<longrightarrow> example_key k' \<le> example_key k))"
    by blast
  from none m2 have "res \<noteq> None" by auto
  then obtain d where d: "res = Some d" by auto
  with some obtain k where k: "k \<in> set (map fst ?vs)" "vp_match example_vp k = Inr True"
    "map_of ?vs k = Some d"
    "\<forall>k' \<in> set (map fst ?vs). vp_match example_vp k' = Inr True
        \<longrightarrow> example_key k' \<le> example_key k"
    by blast
  from k(4) m2 have "example_key ''2.0'' \<le> example_key k" by simp
  with k(1,2) have "k = ''2.0''"
    by (auto simp: example_key_def example_vp_def example_match_def)
  with k(3) have "d = ''foo-2.0''" by simp
  with loc d h1 h2 bogus show ?thesis by simp
qed
section \<open>The crawler: the worker loop and its queue\<close>

lemma should_queue_eq:
  assumes "urlparse link = Inr p"
  shows "should_queue link referrer
           = Inr (in_scope p,
                  if \<not> in_scope p
                  then [(DEBUG, ''Not queueing %s from %s'', [Str link, Str referrer])] else [])"
  using assms by (simp add: should_queue_def in_scope_def Let_def)


lemma process_download_no_info:
  assumes "convert_url_to_download_info link (Some (project_name st)) = Inr (None, logs)"
  shows "process_download st link = Inr (None, st\<lparr>logged := logged st @ logs\<rparr>)"
  using assms by (simp add: process_download_def)

lemma puts_Nil [simp]: "puts [] q = q"
  by (simp add: puts_def)










lemma convert_urlparse:
  assumes "convert_url_to_download_info link expected = Inr r"
  shows "\<exists>p. urlparse link = Inr p"
  using assms by (cases "urlparse link") (simp_all add: convert_url_to_download_info_def)













section \<open>Claims about the crawler\<close>

text \<open>
  C1. In the loop over the links of a fetched page, a link that is not yet in the seen
  set and that yields no download information is added to the seen set, and it is put
  in the queue exactly when its scheme is \<open>http\<close> or \<open>https\<close>, its host is not
  \<open>localhost\<close>, its path does not end in an archive, \<open>.exe\<close> or \<open>.pdf\<close> extension,
  and the URL of the page it was found on starts with the base URL. The loop then goes
  on with the next link; nothing else of the instance changes but the log.
\<close>

theorem link_enqueued_from_base_page:
  assumes "link \<notin> seen st"
    and "convert_url_to_download_info link (Some (project_name st)) = Inr (None, logs)"
  shows "\<exists>p st1. urlparse link = Inr p
           \<and> fetch_links url (link # ls) st = fetch_links url ls st1
           \<and> seen st1 = insert link (seen st)
           \<and> base_url st1 = base_url st \<and> project_name st1 = project_name st
           \<and> result st1 = result st \<and> cache st1 = cache st \<and> threads st1 = threads st
           \<and> to_fetch st1 = (if in_scope p \<and> startswith url (base_url st)
                              then put (Some link) (to_fetch st) else to_fetch st)"
proof -
  from convert_urlparse [OF assms(2)] obtain p where p: "urlparse link = Inr p" by blast
  let ?st1 = "st\<lparr>seen := insert link (seen st)\<rparr>"
  have "convert_url_to_download_info link (Some (project_name ?st1)) = Inr (None, logs)"
    using assms(2) by simp
  note pd = process_download_no_info [OF this]
  note sq = should_queue_eq [OF p, of url]
  let ?st3 = "st\<lparr>seen := insert link (seen st), logged := logged st @ logs\<rparr>"
  show ?thesis
  proof (cases "in_scope p \<and> startswith url (base_url st)")
    case True
    let ?st4 = "?st3\<lparr>logged := logged ?st3
                            @ [(DEBUG, ''Queueing %s from %s'', [Str link, Str url])],
                         to_fetch := put (Some link) (to_fetch ?st3)\<rparr>"
    have "fetch_links url (link # ls) st = fetch_links url ls ?st4"
      using True assms(1) pd sq by (simp add: Let_def)
    with p True show ?thesis
      by (intro exI [of _ p] exI [of _ ?st4]) (simp del: fetch_links.simps)
  next
    case False
    let ?st4 = "?st3\<lparr>logged := logged ?st3
                  @ (if \<not> in_scope p
                     then [(DEBUG, ''Not queueing %s from %s'', [Str link, Str url])] else [])\<rparr>"
    have "fetch_links url (link # ls) st = fetch_links url ls ?st4"
      using False assms(1) pd sq by (auto simp: Let_def)
    moreover have "(if in_scope p \<and> startswith url (base_url st)
                    then put (Some link) (to_fetch st) else to_fetch st) = to_fetch st"
      by (simp only: False if_False)
    ultimately show ?thesis
      using p by (intro exI [of _ p] exI [of _ ?st4]) (simp del: fetch_links.simps)
  qed
qed


theorem link_enqueued_from_base_page_witness:
  "''http://other.example/foo/'' \<notin> seen example_locator
   \<and> convert_url_to_download_info ''http://other.example/foo/''
         (Some (project_name example_locator)) = Inr (None, [])
   \<and> (\<exists>st1. fetch_links ''http://example.org/simple/foo/'' [''http://other.example/foo/'']
                example_locator
              = fetch_links ''http://example.org/simple/foo/'' [] st1
            \<and> seen st1 = insert ''http://other.example/foo/'' (seen example_locator)
            \<and> to_fetch st1 = put (Some ''http://other.example/foo/'') (to_fetch example_locator))"
proof -
  let ?link = "''http://other.example/foo/''"
  let ?url = "''http://example.org/simple/foo/''"
  let ?p = "\<lparr>scheme = ''http'', netloc = ''other.example'', path = ''/foo/'',
            params = [], query = [], fragment = []\<rparr>"
  have h1: "?link \<notin> seen example_locator" by code_simp
  have h2: "convert_url_to_download_info ?link (Some (project_name example_locator))
              = Inr (None, [])"
    by code_simp
  have u: "urlparse ?link = Inr ?p" by code_simp
  have s: "in_scope ?p" by code_simp
  have b: "startswith ?url (base_url example_locator)" by code_simp
  from link_enqueued_from_base_page [OF h1 h2, of ?url "[]"]
  obtain p st1 where "urlparse ?link = Inr p"
    and f: "fetch_links ?url [?link] example_locator = fetch_links ?url [] st1"
    and sn: "seen st1 = insert ?link (seen example_locator)"
    and q: "to_fetch st1 = (if in_scope p \<and> startswith ?url (base_url example_locator)
                            then put (Some ?link) (to_fetch example_locator)
                            else to_fetch example_locator)"
    by blast
  with u have "p = ?p" by simp
  with q s b have "to_fetch st1 = put (Some ?link) (to_fetch example_locator)" by simp
  with f sn have "\<exists>st1. fetch_links ?url [?link] example_locator = fetch_links ?url [] st1
            \<and> seen st1 = insert ?link (seen example_locator)
            \<and> to_fetch st1 = put (Some ?link) (to_fetch example_locator)"
    by blast
  with h1 h2 show ?thesis by blast
qed

theorem referrer_prefix_counterexample:
  "\<not> startswith ''http://other.example/foo/'' (base_url example_locator)
   \<and> items (to_fetch (snd (fetch_links ''http://example.org/simple/foo/''
                              [''http://other.example/foo/''] example_locator)))
       = [Some ''http://other.example/foo/'']
   \<and> startswith ''http://example.org/simple/bar/'' (base_url example_locator)
   \<and> convert_url_to_download_info ''http://example.org/simple/bar/''
         (Some (project_name example_locator)) = Inr (None, [])
   \<and> should_queue ''http://example.org/simple/bar/'' ''http://other.example/foo/''
       = Inr (True, [])
   \<and> items (to_fetch (snd (fetch_links ''http://other.example/foo/''
                              [''http://example.org/simple/bar/''] example_locator)))
       = []"
  by (intro conjI; code_simp)





end
